theory Spec2Isabelle
  imports Main "HOL-Library.Word" "HOL-Library.Sublist"
begin

section \<open>The packaging script \<open>setup.py\<close> of hgdb-circt\<close>

text \<open>
  The script has two pieces of behaviour: the method \<open>CMakeBuild.build_extension\<close>, which
  stages the pre-built binaries listed in \<open>binary_names\<close> into the extension output
  directory, and the module-level read of \<open>README.md\<close> into \<open>long_description\<close>.
  Both act on the file system only, so the model is a file system passed explicitly.
\<close>

subsection \<open>File system\<close>

text \<open>
  A path is the list of its components below the root; \<open>[]\<close> is the root directory itself.
  Paths are taken resolved and absolute (\<open>extdir\<close> goes through \<open>os.path.abspath\<close>, and
  \<open>os.path.dirname(__file__)\<close> is taken as the resolved directory of the script).
  An entry is a regular file with its bytes and its permission bits, or a directory.
  The process is taken to be an unprivileged user who owns the files: it may read every
  file and search and write every directory (the build that produced the binaries ran as
  the same user), but it may open an existing file for writing only when the owner-write
  bit of the file is set. Symbolic links are not part of the state.
\<close>

type_synonym byte = "8 word"
type_synonym path = "string list"
type_synonym mode = nat

datatype node = File "byte list" mode | Dir

text \<open>The owner-write bit \<open>S_IWUSR\<close>, octal 200.\<close>

definition owner_writable :: "mode \<Rightarrow> bool" where
  "owner_writable m \<longleftrightarrow> odd (m div 128)"

text \<open>
  The permission bits of a file that \<open>open(dst, 'wb')\<close> creates: octal 666 less the usual
  umask 022. \<open>shutil.copy\<close> replaces them at once with those of the source.
\<close>

definition new_file_mode :: mode where
  "new_file_mode = 420"

type_synonym filesystem = "path \<rightharpoonup> node"

datatype error =
    AssertionError
  | FileExistsError
  | FileNotFoundError
  | NotADirectoryError
  | IsADirectoryError
  | SameFileError
  | PermissionError
  | UnicodeDecodeError

datatype outcome = Completed | Raised error

definition lookup :: "filesystem \<Rightarrow> path \<Rightarrow> node option" where
  "lookup fs p = (if p = [] then Some Dir else fs p)"

text \<open>\<open>os.path.exists\<close>, \<open>os.path.isdir\<close>, \<open>os.path.isfile\<close>.\<close>

definition exists_path :: "filesystem \<Rightarrow> path \<Rightarrow> bool" where
  "exists_path fs p = (case lookup fs p of None \<Rightarrow> False | Some _ \<Rightarrow> True)"

definition isdir :: "filesystem \<Rightarrow> path \<Rightarrow> bool" where
  "isdir fs p = (case lookup fs p of Some Dir \<Rightarrow> True | _ \<Rightarrow> False)"

definition isfile :: "filesystem \<Rightarrow> path \<Rightarrow> bool" where
  "isfile fs p = (case lookup fs p of Some (File _ _) \<Rightarrow> True | _ \<Rightarrow> False)"

text \<open>
  \<open>os.mkdir\<close>: the path must be new and its parent must be a directory.
\<close>

definition mkdir :: "filesystem \<Rightarrow> path \<Rightarrow> error + filesystem" where
  "mkdir fs p =
     (if exists_path fs p then Inl FileExistsError
      else case lookup fs (butlast p) of
             None \<Rightarrow> Inl FileNotFoundError
           | Some (File _ _) \<Rightarrow> Inl NotADirectoryError
           | Some Dir \<Rightarrow> Inr (fs(p \<mapsto> Dir)))"

text \<open>
  \<open>os.makedirs(name)\<close> with \<open>exist_ok=False\<close>: when the parent is missing it is made first
  (a \<open>FileExistsError\<close> from that recursive call is swallowed), then the leaf is made with
  \<open>mkdir\<close>. A failure leaves behind the directories made so far, so the file system is
  returned in both cases.
\<close>

function makedirs :: "filesystem \<Rightarrow> path \<Rightarrow> outcome \<times> filesystem" where
  "makedirs fs p =
     (if p \<noteq> [] \<and> \<not> exists_path fs (butlast p) then
        (case makedirs fs (butlast p) of
           (Raised FileExistsError, fs') \<Rightarrow>
             (case mkdir fs' p of Inl e \<Rightarrow> (Raised e, fs') | Inr fs'' \<Rightarrow> (Completed, fs''))
         | (Raised e, fs') \<Rightarrow> (Raised e, fs')
         | (Completed, fs') \<Rightarrow>
             (case mkdir fs' p of Inl e \<Rightarrow> (Raised e, fs') | Inr fs'' \<Rightarrow> (Completed, fs'')))
      else (case mkdir fs p of Inl e \<Rightarrow> (Raised e, fs) | Inr fs'' \<Rightarrow> (Completed, fs'')))"
  by pat_completeness auto
termination
  by (relation "measure (\<lambda>(fs, p). length p)") auto

declare makedirs.simps [simp del]

text \<open>
  \<open>shutil.copyfile(src, dst)\<close>: refuses to copy a file onto itself, opens \<open>src\<close> for
  reading and \<open>dst\<close> for writing, and writes all bytes of \<open>src\<close>. Opening \<open>dst\<close> creates
  it, or truncates it when it is a file the process may write; a file without the owner-write
  bit raises \<open>PermissionError\<close>. The permission bits of an existing \<open>dst\<close> stay.
\<close>

definition copyfile :: "filesystem \<Rightarrow> path \<Rightarrow> path \<Rightarrow> error + filesystem" where
  "copyfile fs src dst =
     (if exists_path fs src \<and> exists_path fs dst \<and> src = dst then Inl SameFileError
      else case lookup fs src of
             None \<Rightarrow> Inl FileNotFoundError
           | Some Dir \<Rightarrow> Inl IsADirectoryError
           | Some (File bytes _) \<Rightarrow>
               (case lookup fs dst of
                  Some Dir \<Rightarrow> Inl IsADirectoryError
                | Some (File _ m) \<Rightarrow>
                    if owner_writable m then Inr (fs(dst \<mapsto> File bytes m))
                    else Inl PermissionError
                | None \<Rightarrow>
                    (case lookup fs (butlast dst) of
                       None \<Rightarrow> Inl FileNotFoundError
                     | Some (File _ _) \<Rightarrow> Inl NotADirectoryError
                     | Some Dir \<Rightarrow> Inr (fs(dst \<mapsto> File bytes new_file_mode)))))"

text \<open>
  \<open>shutil.copymode(src, dst)\<close>: \<open>os.chmod(dst, stat.S_IMODE(os.stat(src).st_mode))\<close>. The
  owner may always change the bits of a file; directories carry no bits in this state.
\<close>

definition copymode :: "filesystem \<Rightarrow> path \<Rightarrow> path \<Rightarrow> error + filesystem" where
  "copymode fs src dst =
     (case lookup fs src of
        None \<Rightarrow> Inl FileNotFoundError
      | Some Dir \<Rightarrow>
          (case lookup fs dst of None \<Rightarrow> Inl FileNotFoundError | Some _ \<Rightarrow> Inr fs)
      | Some (File _ m) \<Rightarrow>
          (case lookup fs dst of
             None \<Rightarrow> Inl FileNotFoundError
           | Some Dir \<Rightarrow> Inr fs
           | Some (File bytes _) \<Rightarrow> Inr (fs(dst \<mapsto> File bytes m))))"

text \<open>
  \<open>shutil.copy(src, dst)\<close>: when \<open>dst\<close> is a directory the target is the file in it named
  like the last component of \<open>src\<close>; otherwise the target is \<open>dst\<close> itself. The content is
  copied with \<open>copyfile\<close>, then the permission bits with \<open>copymode\<close>.
\<close>

definition copy :: "filesystem \<Rightarrow> path \<Rightarrow> path \<Rightarrow> error + filesystem" where
  "copy fs src dst =
     (let dst = (if isdir fs dst then dst @ [last src] else dst)
      in case copyfile fs src dst of
           Inl e \<Rightarrow> Inl e
         | Inr fs' \<Rightarrow> copymode fs' src dst)"

subsection \<open>\<open>CMakeBuild.build_extension\<close>\<close>

text \<open>
  The platform calls the method makes are recorded, in order, next to the file system; the
  record is what "checked", "copied" and "attempted" refer to.
\<close>

datatype call = Exists path | Makedirs path | Isfile path | Copy path path

record run =
  outcome :: outcome
  files :: filesystem
  calls :: "call list"

definition binary_names :: "string list" where
  "binary_names = [''circt-opt'', ''firtool'']"

text \<open>
  \<open>os.path.join(root_dir, "build", "bin", name)\<close>. A name is one path component, as the
  names of \<open>binary_names\<close> are; a name holding a separator, which \<open>os.path.join\<close> and
  \<open>os.path.basename\<close> would split, is outside this definition.
\<close>

definition binary_path :: "path \<Rightarrow> string \<Rightarrow> path" where
  "binary_path root_dir name = root_dir @ [''build'', ''bin'', name]"

text \<open>
  The loop \<open>for binary in binaries: assert os.path.isfile(binary); shutil.copy(binary, extdir)\<close>.
  A failed \<open>assert\<close> raises \<open>AssertionError\<close> (the interpreter is taken to run without
  \<open>-O\<close>, which would drop the statement); an exception of \<open>shutil.copy\<close> propagates, and a
  copy that raises has written nothing.
\<close>

fun copy_loop :: "filesystem \<Rightarrow> call list \<Rightarrow> path list \<Rightarrow> path \<Rightarrow> run" where
  "copy_loop fs log [] extdir = \<lparr>outcome = Completed, files = fs, calls = log\<rparr>"
| "copy_loop fs log (binary # binaries) extdir =
     (if \<not> isfile fs binary
      then \<lparr>outcome = Raised AssertionError, files = fs, calls = log @ [Isfile binary]\<rparr>
      else case copy fs binary extdir of
             Inl e \<Rightarrow> \<lparr>outcome = Raised e, files = fs,
                        calls = log @ [Isfile binary, Copy binary extdir]\<rparr>
           | Inr fs' \<Rightarrow> copy_loop fs' (log @ [Isfile binary, Copy binary extdir]) binaries extdir)"

text \<open>
  The first statement: \<open>if not os.path.exists(extdir): os.makedirs(extdir)\<close>. The path
  \<open>extdir\<close> is what the packaging tool computes (\<open>get_ext_fullpath\<close> is not code of this
  repository), so it is a parameter.
\<close>

definition ensure_extdir :: "filesystem \<Rightarrow> path \<Rightarrow> run" where
  "ensure_extdir fs extdir =
     (if \<not> exists_path fs extdir
      then (case makedirs fs extdir of
              (r, fs') \<Rightarrow> \<lparr>outcome = r, files = fs', calls = [Exists extdir, Makedirs extdir]\<rparr>)
      else \<lparr>outcome = Completed, files = fs, calls = [Exists extdir]\<rparr>)"

text \<open>
  The method body, for any value of the module-level list (\<open>build_extension_for\<close>), and as the
  script has it (\<open>build_extension\<close>). The local \<open>bins\<close> is bound and not used, as in the source.
\<close>

definition build_extension_for :: "string list \<Rightarrow> path \<Rightarrow> path \<Rightarrow> filesystem \<Rightarrow> run" where
  "build_extension_for names root_dir extdir fs =
     (let r = ensure_extdir fs extdir in
      case outcome r of
        Raised e \<Rightarrow> r
      | Completed \<Rightarrow>
          (let bins = [''hgdb-rtl''];
               binaries = map (\<lambda>name. binary_path root_dir name) names
           in copy_loop (files r) (calls r) binaries extdir))"

definition build_extension :: "path \<Rightarrow> path \<Rightarrow> filesystem \<Rightarrow> run" where
  "build_extension root_dir extdir fs = build_extension_for binary_names root_dir extdir fs"

subsection \<open>The module-level read of \<open>README.md\<close>\<close>

text \<open>
  \<open>with open(os.path.join(os.path.dirname(__file__), "README.md")) as f: long_description = f.read()\<close>.
  The file is opened in text mode without an \<open>encoding\<close> argument, so Python decodes it
  with the preferred encoding of the platform's locale, and without a \<open>newline\<close> argument,
  so line endings are translated. A Python string is a list of code points. The codec is a
  parameter: a function from the bytes to the code points, or \<open>None\<close> where decoding raises
  \<open>UnicodeDecodeError\<close>.
\<close>

type_synonym codepoint = nat
type_synonym codec = "byte list \<Rightarrow> codepoint list option"

definition continuation :: "byte \<Rightarrow> bool" where
  "continuation b \<longleftrightarrow> 0x80 \<le> unat b \<and> unat b \<le> 0xBF"

text \<open>
  The strict UTF-8 codec (RFC 3629, as Python's \<open>utf-8\<close> with \<open>errors='strict'\<close>): overlong
  forms, surrogates and values above \<open>0x10FFFF\<close> are rejected.
\<close>

fun utf8_decode :: codec where
  "utf8_decode [] = Some []"
| "utf8_decode (b # bs) =
     (let n = unat b in
      if n < 0x80 then map_option ((#) n) (utf8_decode bs)
      else if 0xC2 \<le> n \<and> n \<le> 0xDF then
        (case bs of
           c1 # rest \<Rightarrow>
             if continuation c1
             then map_option ((#) ((n - 0xC0) * 64 + (unat c1 - 0x80))) (utf8_decode rest)
             else None
         | _ \<Rightarrow> None)
      else if 0xE0 \<le> n \<and> n \<le> 0xEF then
        (case bs of
           c1 # c2 # rest \<Rightarrow>
             (let cp = (n - 0xE0) * 4096 + (unat c1 - 0x80) * 64 + (unat c2 - 0x80) in
              if continuation c1 \<and> continuation c2 \<and> 0x800 \<le> cp
                 \<and> \<not> (0xD800 \<le> cp \<and> cp \<le> 0xDFFF)
              then map_option ((#) cp) (utf8_decode rest)
              else None)
         | _ \<Rightarrow> None)
      else if 0xF0 \<le> n \<and> n \<le> 0xF4 then
        (case bs of
           c1 # c2 # c3 # rest \<Rightarrow>
             (let cp = (n - 0xF0) * 262144 + (unat c1 - 0x80) * 4096
                       + (unat c2 - 0x80) * 64 + (unat c3 - 0x80) in
              if continuation c1 \<and> continuation c2 \<and> continuation c3
                 \<and> 0x10000 \<le> cp \<and> cp \<le> 0x10FFFF
              then map_option ((#) cp) (utf8_decode rest)
              else None)
         | _ \<Rightarrow> None)
      else None)"

text \<open>ISO-8859-1, a locale encoding in which every byte is its own code point.\<close>

definition latin1_decode :: codec where
  "latin1_decode bytes = Some (map unat bytes)"

text \<open>
  Universal newlines, the text-mode default \<open>newline=None\<close>: on reading, \<open>\r\n\<close> and a
  lone \<open>\r\<close> both become \<open>\n\<close>.
\<close>

fun universal_newlines :: "codepoint list \<Rightarrow> codepoint list" where
  "universal_newlines [] = []"
| "universal_newlines [c] = (if c = 13 then [10] else [c])"
| "universal_newlines (c # d # cs) =
     (if c = 13 \<and> d = 10 then 10 # universal_newlines cs
      else if c = 13 then 10 # universal_newlines (d # cs)
      else c # universal_newlines (d # cs))"

text \<open>\<open>open(path).read()\<close> on the whole file.\<close>

definition read_text :: "codec \<Rightarrow> filesystem \<Rightarrow> path \<Rightarrow> error + codepoint list" where
  "read_text preferred fs p =
     (case lookup fs p of
        None \<Rightarrow> Inl FileNotFoundError
      | Some Dir \<Rightarrow> Inl IsADirectoryError
      | Some (File bytes _) \<Rightarrow>
          (case preferred bytes of
             None \<Rightarrow> Inl UnicodeDecodeError
           | Some text \<Rightarrow> Inr (universal_newlines text)))"

definition long_description :: "codec \<Rightarrow> path \<Rightarrow> filesystem \<Rightarrow> error + codepoint list" where
  "long_description preferred root_dir fs = read_text preferred fs (root_dir @ [''README.md''])"

subsection \<open>Notions used in the statements\<close>

text \<open>The calls the loop makes when nothing stops it: a check and a copy per name, in order.\<close>

definition loop_calls :: "path \<Rightarrow> path \<Rightarrow> string list \<Rightarrow> call list" where
  "loop_calls root_dir extdir names =
     concat (map (\<lambda>n. [Isfile (binary_path root_dir n), Copy (binary_path root_dir n) extdir]) names)"

text \<open>
  A path at which \<open>shutil.copy\<close> can write a file: nothing is there yet, or a file with the
  owner-write bit; not a directory, and not a file the process may not write.
\<close>

definition can_write :: "filesystem \<Rightarrow> path \<Rightarrow> bool" where
  "can_write fs p =
     (case fs p of None \<Rightarrow> True | Some Dir \<Rightarrow> False | Some (File _ m) \<Rightarrow> owner_writable m)"

text \<open>
  The file systems on which no platform call of the method can raise: the destination and
  the directories above it are directories or absent, the destination is not the build
  output directory itself (so no file is copied onto itself), no name is listed twice, and
  each binary can be written at its place in the destination.
\<close>

definition platform_ok :: "filesystem \<Rightarrow> path \<Rightarrow> path \<Rightarrow> string list \<Rightarrow> bool" where
  "platform_ok fs root_dir extdir names \<longleftrightarrow>
     (\<forall>q\<in>set (prefixes extdir). \<not> isfile fs q)
   \<and> extdir \<noteq> root_dir @ [''build'', ''bin'']
   \<and> distinct names
   \<and> (\<forall>n\<in>set names. can_write fs (extdir @ [n]))"

text \<open>The entries below a directory, as paths relative to it.\<close>

definition entries_below :: "filesystem \<Rightarrow> path \<Rightarrow> path set" where
  "entries_below fs d = {q. q \<noteq> [] \<and> fs (d @ q) \<noteq> None}"

subsection \<open>Example file systems\<close>

definition root0 :: path where "root0 = [''src'']"
definition ext0 :: path where "ext0 = [''out'', ''lib'']"

text \<open>Modes: 493 is octal 755, 420 is octal 644, 365 is octal 555.\<close>

definition fs_both :: filesystem where
  "fs_both = [binary_path root0 ''circt-opt'' \<mapsto> File [1, 2, 3] 493,
              binary_path root0 ''firtool'' \<mapsto> File [4, 5] 493]"

definition fs_first_only :: filesystem where
  "fs_first_only = [binary_path root0 ''circt-opt'' \<mapsto> File [1, 2, 3] 493]"

definition fs_second_only :: filesystem where
  "fs_second_only = [binary_path root0 ''firtool'' \<mapsto> File [4, 5] 493]"

definition fs_only_a :: filesystem where
  "fs_only_a = [binary_path root0 ''a'' \<mapsto> File [7] 493]"

definition fs_with_rtl :: filesystem where
  "fs_with_rtl = fs_both(binary_path root0 ''hgdb-rtl'' \<mapsto> File [8] 493)"

definition fs_stale :: filesystem where
  "fs_stale = fs_both([''out''] \<mapsto> Dir, ext0 \<mapsto> Dir, ext0 @ [''firtool''] \<mapsto> File [9] 420)"

definition fs_stale_readonly :: filesystem where
  "fs_stale_readonly =
     fs_both([''out''] \<mapsto> Dir, ext0 \<mapsto> Dir, ext0 @ [''firtool''] \<mapsto> File [9] 365)"

definition fs_readonly :: filesystem where
  "fs_readonly = [binary_path root0 ''circt-opt'' \<mapsto> File [1, 2, 3] 365,
                  binary_path root0 ''firtool'' \<mapsto> File [4, 5] 365]"

definition fs_blocked :: filesystem where
  "fs_blocked = fs_both([''out''] \<mapsto> Dir, ext0 \<mapsto> Dir, ext0 @ [''firtool''] \<mapsto> Dir)"

definition fs_first_blocked :: filesystem where
  "fs_first_blocked =
     fs_first_only([''out''] \<mapsto> Dir, ext0 \<mapsto> Dir, ext0 @ [''circt-opt''] \<mapsto> Dir)"

definition fs_crlf :: filesystem where
  "fs_crlf = [root0 @ [''README.md''] \<mapsto> File [0x61, 0x0D, 0x0A] 420]"

definition fs_accent :: filesystem where
  "fs_accent = [root0 @ [''README.md''] \<mapsto> File [0xC3, 0xA9] 420]"

definition fs_plain :: filesystem where
  "fs_plain = [root0 @ [''README.md''] \<mapsto> File [0x68, 0x69, 0x0A] 420]"

section \<open>Properties of the file system operations\<close>

subsection \<open>Lookup, \<open>mkdir\<close> and \<open>makedirs\<close>\<close>

lemma lookup_Nil [simp]: "lookup fs [] = Some Dir"
  by (simp add: lookup_def)

lemma lookup_nonempty [simp]: "p \<noteq> [] \<Longrightarrow> lookup fs p = fs p"
  by (simp add: lookup_def)

lemma lookup_upd_same [simp]: "p \<noteq> [] \<Longrightarrow> lookup (fs(p \<mapsto> v)) p = Some v"
  by (simp add: lookup_def)

lemma lookup_upd_other [simp]: "q \<noteq> p \<Longrightarrow> lookup (fs(p \<mapsto> v)) q = lookup fs q"
  by (simp add: lookup_def)

lemma exists_path_iff: "exists_path fs p \<longleftrightarrow> lookup fs p \<noteq> None"
  by (simp add: exists_path_def split: option.splits)

lemma isdir_iff: "isdir fs p \<longleftrightarrow> lookup fs p = Some Dir"
  by (simp add: isdir_def split: option.splits node.splits)

lemma isfile_iff: "isfile fs p \<longleftrightarrow> (\<exists>bytes m. lookup fs p = Some (File bytes m))"
  by (simp add: isfile_def split: option.splits node.splits)

lemma mkdir_Inr:
  "mkdir fs p = Inr fs' \<Longrightarrow> p \<noteq> [] \<and> fs p = None \<and> lookup fs (butlast p) = Some Dir \<and> fs' = fs(p \<mapsto> Dir)"
  by (auto simp: mkdir_def exists_path_iff lookup_def split: if_splits option.splits node.splits)

lemma mkdir_ok:
  "p \<noteq> [] \<Longrightarrow> fs p = None \<Longrightarrow> lookup fs (butlast p) = Some Dir \<Longrightarrow> mkdir fs p = Inr (fs(p \<mapsto> Dir))"
  by (simp add: mkdir_def exists_path_iff)

text \<open>makedirs only adds directories, at absent prefixes of the path.\<close>

lemma makedirs_frame:
  "makedirs fs p = (r, fs') \<Longrightarrow>
     fs' q = fs q \<or> (fs q = None \<and> fs' q = Some Dir \<and> prefix q p \<and> q \<noteq> [])"
proof (induction fs p arbitrary: r fs' rule: makedirs.induct)
  case (1 fs p)
  show ?case
  proof (cases "p \<noteq> [] \<and> \<not> exists_path fs (butlast p)")
    case True
    obtain r1 fs1 where rec: "makedirs fs (butlast p) = (r1, fs1)"
      by (cases "makedirs fs (butlast p)")
    from "1.IH"[OF True rec]
    have ih: "fs1 q = fs q \<or> (fs q = None \<and> fs1 q = Some Dir \<and> prefix q (butlast p) \<and> q \<noteq> [])" .
    have pb: "prefix (butlast p) p"
      by (metis append_butlast_last_id butlast.simps(1) prefixI prefix_order.refl)
    have step: "fs' = fs1 \<or> (p \<noteq> [] \<and> fs1 p = None \<and> fs' = fs1(p \<mapsto> Dir))"
      using "1.prems" True rec
      by (subst (asm) makedirs.simps)
         (auto split: outcome.splits error.splits sum.splits dest: mkdir_Inr)
    show ?thesis
    proof (cases "q = p")
      case True
      with step ih pb show ?thesis
        by (auto dest: prefix_order.trans)
    next
      case False
      with step ih pb show ?thesis
        by (auto dest: prefix_order.trans)
    qed
  next
    case False
    have step: "fs' = fs \<or> (p \<noteq> [] \<and> fs p = None \<and> fs' = fs(p \<mapsto> Dir))"
      using "1.prems" False
      by (subst (asm) makedirs.simps)
         (auto split: sum.splits dest: mkdir_Inr)
    then show ?thesis by (cases "q = p") auto
  qed
qed

lemma makedirs_Completed_isdir:
  "makedirs fs p = (Completed, fs') \<Longrightarrow> p \<noteq> [] \<and> fs' p = Some Dir"
  by (subst (asm) makedirs.simps)
     (auto split: if_splits prod.splits outcome.splits error.splits sum.splits dest!: mkdir_Inr)

lemma prefix_butlast: "prefix (butlast p) p"
  by (metis append_butlast_last_id butlast.simps(1) prefixI prefix_order.refl)

text \<open>makedirs succeeds when the path is new and no prefix of it is a regular file.\<close>

lemma makedirs_ok:
  "\<not> exists_path fs p \<Longrightarrow> (\<And>q. prefix q p \<Longrightarrow> \<not> isfile fs q) \<Longrightarrow>
     \<exists>fs'. makedirs fs p = (Completed, fs')"
proof (induction fs p rule: makedirs.induct)
  case (1 fs p)
  from "1.prems"(1) have pne: "p \<noteq> []" and pnone: "fs p = None"
    by (auto simp: exists_path_iff lookup_def split: if_splits)
  show ?case
  proof (cases "\<not> exists_path fs (butlast p)")
    case True
    have "\<And>q. prefix q (butlast p) \<Longrightarrow> \<not> isfile fs q"
      using "1.prems"(2) prefix_butlast prefix_order.trans by blast
    with "1.IH" pne True obtain fs1 where rec: "makedirs fs (butlast p) = (Completed, fs1)"
      by blast
    from makedirs_Completed_isdir[OF rec] have d: "lookup fs1 (butlast p) = Some Dir"
      by simp
    have "p \<noteq> butlast p" using pne
      by (metis append_butlast_last_id append_self_conv not_Cons_self2)
    then have "\<not> prefix p (butlast p)"
      using prefix_butlast prefix_order.antisym by blast
    with makedirs_frame[OF rec, of p] pnone have "fs1 p = None" by auto
    with pne d have "mkdir fs1 p = Inr (fs1(p \<mapsto> Dir))" by (simp add: mkdir_ok)
    with rec pne True show ?thesis
      by (subst makedirs.simps) simp
  next
    case False
    then obtain v where v: "lookup fs (butlast p) = Some v"
      by (auto simp: exists_path_iff)
    have "\<not> isfile fs (butlast p)" using "1.prems"(2) prefix_butlast by blast
    with v have "lookup fs (butlast p) = Some Dir"
      by (cases v) (auto simp: isfile_iff)
    with pne pnone have "mkdir fs p = Inr (fs(p \<mapsto> Dir))" by (simp add: mkdir_ok)
    with False show ?thesis
      by (subst makedirs.simps) simp
  qed
qed

subsection \<open>copy\<close>

lemma copyfile_Inr:
  assumes "copyfile fs src dst = Inr fs1" and "dst \<noteq> []"
  shows "\<exists>bytes m m'. lookup fs src = Some (File bytes m) \<and> src \<noteq> dst
           \<and> can_write fs dst \<and> fs1 = fs(dst \<mapsto> File bytes m')"
proof -
  from assms(1) obtain bytes m where src: "lookup fs src = Some (File bytes m)"
    by (auto simp: copyfile_def split: if_splits option.splits node.splits)
  then have ex: "exists_path fs src" by (simp add: exists_path_iff)
  show ?thesis
  proof (cases "fs dst")
    case None
    with src assms(2) have ne: "src \<noteq> dst" by (auto simp: lookup_def split: if_splits)
    from None have cw: "can_write fs dst" by (simp add: can_write_def)
    from assms None src ne have "fs1 = fs(dst \<mapsto> File bytes new_file_mode)"
      by (auto simp: copyfile_def split: if_splits option.splits node.splits)
    with src ne cw show ?thesis by blast
  next
    case (Some v)
    with assms(2) have exd: "exists_path fs dst" by (simp add: exists_path_iff)
    with assms(1) ex have ne: "src \<noteq> dst" by (auto simp: copyfile_def)
    from assms Some src ne obtain b' m' where v: "v = File b' m'" and w: "owner_writable m'"
      and "fs1 = fs(dst \<mapsto> File bytes m')"
      by (cases v) (auto simp: copyfile_def split: if_splits)
    moreover from Some v w have "can_write fs dst" by (simp add: can_write_def)
    ultimately show ?thesis using src ne by blast
  qed
qed

lemma copy_into_dir_Inr:
  assumes "isdir fs d" and "copy fs src d = Inr fs'"
  shows "\<exists>bytes m. lookup fs src = Some (File bytes m) \<and> src \<noteq> d @ [last src]
           \<and> can_write fs (d @ [last src]) \<and> fs' = fs(d @ [last src] \<mapsto> File bytes m)"
proof -
  let ?dst = "d @ [last src]"
  from assms obtain fs1 where cf: "copyfile fs src ?dst = Inr fs1"
    and cm: "copymode fs1 src ?dst = Inr fs'"
    by (auto simp: copy_def Let_def split: sum.splits)
  from copyfile_Inr[OF cf] obtain bytes m m' where src: "lookup fs src = Some (File bytes m)"
    and ne: "src \<noteq> ?dst" and cw: "can_write fs ?dst"
    and fs1: "fs1 = fs(?dst \<mapsto> File bytes m')"
    by auto
  from src ne have "lookup fs1 src = Some (File bytes m)"
    unfolding fs1 by (auto simp: lookup_def split: if_splits)
  with cm have "fs' = fs(?dst \<mapsto> File bytes m)"
    unfolding fs1 by (auto simp: copymode_def lookup_def split: if_splits)
  with src ne cw show ?thesis by blast
qed

lemma copy_into_dir_ok:
  assumes "isdir fs d" and "lookup fs src = Some (File bytes m)" and "src \<noteq> d @ [last src]"
    and "can_write fs (d @ [last src])"
  shows "copy fs src d = Inr (fs(d @ [last src] \<mapsto> File bytes m))"
proof -
  let ?dst = "d @ [last src]"
  from assms(2) have sne: "src \<noteq> []" by (auto simp: lookup_def split: if_splits)
  from assms obtain m' where cf: "copyfile fs src ?dst = Inr (fs(?dst \<mapsto> File bytes m'))"
    by (auto simp: copyfile_def exists_path_iff isdir_iff can_write_def
             split: option.splits node.splits)
  from assms(2,3) sne have "lookup (fs(?dst \<mapsto> File bytes m')) src = Some (File bytes m)"
    by (simp add: lookup_def)
  then have "copymode (fs(?dst \<mapsto> File bytes m')) src ?dst = Inr (fs(?dst \<mapsto> File bytes m))"
    by (simp add: copymode_def)
  with cf assms(1) show ?thesis by (simp add: copy_def)
qed

text \<open>\<open>shutil.copy\<close> never raises the assertion failure.\<close>

lemma copyfile_not_assertion: "copyfile fs src dst \<noteq> Inl AssertionError"
  by (simp add: copyfile_def split: option.splits node.splits)

lemma copymode_not_assertion: "copymode fs src dst \<noteq> Inl AssertionError"
  by (simp add: copymode_def split: option.splits node.splits)

lemma copy_not_assertion: "copy fs src d \<noteq> Inl AssertionError"
proof -
  define dst where "dst = (if isdir fs d then d @ [last src] else d)"
  have c: "copy fs src d = (case copyfile fs src dst of Inl e \<Rightarrow> Inl e
                            | Inr fs' \<Rightarrow> copymode fs' src dst)"
    unfolding copy_def dst_def Let_def ..
  show ?thesis
  proof (cases "copyfile fs src dst")
    case (Inl e)
    with copyfile_not_assertion[of fs src dst] c show ?thesis by auto
  next
    case (Inr fs')
    with copymode_not_assertion[of fs' src dst] c show ?thesis by simp
  qed
qed

lemma binary_path_nonempty [simp]: "binary_path root n \<noteq> []"
  by (simp add: binary_path_def)

lemma last_binary_path [simp]: "last (binary_path root n) = n"
  by (simp add: binary_path_def)

lemma binary_path_eq_dest:
  "binary_path root n = d @ [m] \<longleftrightarrow> d = root @ [''build'', ''bin''] \<and> n = m"
  by (auto simp: binary_path_def)

lemma binary_path_inj [simp]: "binary_path root n = binary_path root m \<longleftrightarrow> n = m"
  by (simp add: binary_path_def)

section \<open>Properties of the copy loop\<close>

lemma isdir_upd_other: "isdir fs d \<Longrightarrow> p \<noteq> d \<Longrightarrow> isdir (fs(p \<mapsto> v)) d"
  by (simp add: isdir_iff)

lemma isfile_binary: "isfile fs (binary_path root n) \<longleftrightarrow> (\<exists>bytes md. fs (binary_path root n) = Some (File bytes md))"
  by (simp add: isfile_iff)

lemma copy_loop_frame:
  assumes "isdir fs d"
  shows "isdir (files (copy_loop fs log (map (binary_path root) names) d)) d
      \<and> (\<forall>m. files (copy_loop fs log (map (binary_path root) names) d) (binary_path root m)
               = fs (binary_path root m))
      \<and> (\<forall>p. files (copy_loop fs log (map (binary_path root) names) d) p = fs p
             \<or> (\<exists>n\<in>set names. p = d @ [n] \<and> isfile fs (binary_path root n)
                   \<and> files (copy_loop fs log (map (binary_path root) names) d) p
                       = fs (binary_path root n)))"
  using assms
proof (induction names arbitrary: fs log)
  case Nil
  then show ?case by simp
next
  case (Cons n ns)
  let ?b = "binary_path root n"
  show ?case
  proof (cases "isfile fs ?b")
    case False
    with Cons.prems show ?thesis by simp
  next
    case True
    show ?thesis
    proof (cases "copy fs ?b d")
      case (Inl e)
      with True Cons.prems show ?thesis by simp
    next
      case (Inr fs1)
      from copy_into_dir_Inr[OF Cons.prems Inr]
      obtain bytes md where src: "fs ?b = Some (File bytes md)" and ne: "?b \<noteq> d @ [n]"
        and fs1: "fs1 = fs(d @ [n] \<mapsto> File bytes md)"
        by auto
      from ne have dne: "d \<noteq> root @ [''build'', ''bin'']"
        by (simp add: binary_path_eq_dest)
      have keep: "fs1 (binary_path root m) = fs (binary_path root m)" for m
        using dne by (simp add: fs1 binary_path_eq_dest)
      have d1: "isdir fs1 d"
        unfolding fs1 using Cons.prems by (rule isdir_upd_other) simp
      let ?r = "copy_loop fs1 (log @ [Isfile ?b, Copy ?b d]) (map (binary_path root) ns) d"
      have req: "copy_loop fs log (map (binary_path root) (n # ns)) d = ?r"
        using True Inr by simp
      note ih = Cons.IH[OF d1, of "log @ [Isfile ?b, Copy ?b d]"]
      have a: "isdir (files ?r) d" using ih by blast
      have b: "files ?r (binary_path root m) = fs (binary_path root m)" for m
        using ih keep by simp
      have c: "files ?r p = fs p
             \<or> (\<exists>k\<in>set (n # ns). p = d @ [k] \<and> isfile fs (binary_path root k)
                   \<and> files ?r p = fs (binary_path root k))" for p
      proof -
        from ih have "files ?r p = fs1 p
             \<or> (\<exists>k\<in>set ns. p = d @ [k] \<and> isfile fs1 (binary_path root k)
                   \<and> files ?r p = fs1 (binary_path root k))"
          by blast
        then show ?thesis
        proof
          assume eq: "files ?r p = fs1 p"
          show ?thesis
          proof (cases "p = d @ [n]")
            case True
            with eq src True fs1 have "files ?r p = fs ?b" by simp
            with True \<open>isfile fs ?b\<close> show ?thesis by auto
          next
            case False
            with eq fs1 show ?thesis by simp
          qed
        next
          assume "\<exists>k\<in>set ns. p = d @ [k] \<and> isfile fs1 (binary_path root k)
                   \<and> files ?r p = fs1 (binary_path root k)"
          then show ?thesis
            by (auto simp: keep isfile_binary)
        qed
      qed
      show ?thesis unfolding req using a b c by blast
    qed
  qed
qed

lemma copy_loop_completed:
  assumes "isdir fs d"
    and "outcome (copy_loop fs log (map (binary_path root) names) d) = Completed"
    and "n \<in> set names"
  shows "isfile fs (binary_path root n)
       \<and> files (copy_loop fs log (map (binary_path root) names) d) (d @ [n])
           = fs (binary_path root n)
       \<and> d \<noteq> root @ [''build'', ''bin'']"
  using assms
proof (induction names arbitrary: fs log)
  case Nil
  then show ?case by simp
next
  case (Cons k ks)
  let ?b = "binary_path root k"
  from Cons.prems(2) have isf: "isfile fs ?b"
    by (auto split: if_splits)
  with Cons.prems(2) obtain fs1 where Inr: "copy fs ?b d = Inr fs1"
    by (cases "copy fs ?b d") auto
  from copy_into_dir_Inr[OF Cons.prems(1) Inr]
  obtain bytes md where src: "fs ?b = Some (File bytes md)" and ne: "?b \<noteq> d @ [k]"
    and fs1: "fs1 = fs(d @ [k] \<mapsto> File bytes md)"
    by auto
  from ne have dne: "d \<noteq> root @ [''build'', ''bin'']"
    by (simp add: binary_path_eq_dest)
  have keep: "fs1 (binary_path root m) = fs (binary_path root m)" for m
    using dne by (simp add: fs1 binary_path_eq_dest)
  have d1: "isdir fs1 d"
    unfolding fs1 using Cons.prems(1) by (rule isdir_upd_other) simp
  let ?r = "copy_loop fs1 (log @ [Isfile ?b, Copy ?b d]) (map (binary_path root) ks) d"
  have req: "copy_loop fs log (map (binary_path root) (k # ks)) d = ?r"
    using isf Inr by simp
  have fin: "outcome ?r = Completed" using Cons.prems(2) req by simp
  show ?case
  proof (cases "n \<in> set ks")
    case True
    from Cons.IH[OF d1 fin True] show ?thesis
      unfolding req by (simp add: keep isfile_binary)
  next
    case False
    with Cons.prems(3) have nk: "n = k" by simp
    from copy_loop_frame[OF d1, of "log @ [Isfile ?b, Copy ?b d]" root ks]
    have "files ?r (d @ [k]) = fs1 (d @ [k])
        \<or> (\<exists>j\<in>set ks. d @ [k] = d @ [j] \<and> isfile fs1 (binary_path root j)
             \<and> files ?r (d @ [k]) = fs1 (binary_path root j))"
      by blast
    with False nk have "files ?r (d @ [k]) = fs1 (d @ [k])" by auto
    then have "files ?r (d @ [k]) = fs ?b" using fs1 src by simp
    with isf dne nk show ?thesis unfolding req by simp
  qed
qed

lemma loop_calls_Cons:
  "loop_calls root d (n # ns) = Isfile (binary_path root n) # Copy (binary_path root n) d # loop_calls root d ns"
  by (simp add: loop_calls_def)

lemma loop_calls_append:
  "loop_calls root d (xs @ ys) = loop_calls root d xs @ loop_calls root d ys"
  by (simp add: loop_calls_def)

text \<open>The calls of the loop extend the log by a prefix of the full sequence.\<close>

lemma copy_loop_calls:
  "\<exists>rest. calls (copy_loop fs log (map (binary_path root) names) d) = log @ rest
         \<and> prefix rest (loop_calls root d names)
         \<and> (outcome (copy_loop fs log (map (binary_path root) names) d) = Completed
              \<longrightarrow> rest = loop_calls root d names)"
proof (induction names arbitrary: fs log)
  case Nil
  then show ?case by (simp add: loop_calls_def)
next
  case (Cons n ns)
  let ?b = "binary_path root n"
  show ?case
  proof (cases "isfile fs ?b")
    case False
    then show ?thesis by (simp add: loop_calls_Cons)
  next
    case True
    show ?thesis
    proof (cases "copy fs ?b d")
      case (Inl e)
      with True show ?thesis by (simp add: loop_calls_Cons)
    next
      case (Inr fs1)
      from Cons.IH[of fs1 "log @ [Isfile ?b, Copy ?b d]"]
      obtain rest where
        r: "calls (copy_loop fs1 (log @ [Isfile ?b, Copy ?b d]) (map (binary_path root) ns) d)
              = (log @ [Isfile ?b, Copy ?b d]) @ rest"
        and p: "prefix rest (loop_calls root d ns)"
        and c: "outcome (copy_loop fs1 (log @ [Isfile ?b, Copy ?b d]) (map (binary_path root) ns) d) = Completed
              \<longrightarrow> rest = loop_calls root d ns"
        by blast
      show ?thesis
        apply (rule exI[of _ "[Isfile ?b, Copy ?b d] @ rest"])
        using True Inr r p c by (simp add: loop_calls_Cons)
    qed
  qed
qed

text \<open>An assertion failure happens at the first name whose file is missing, after the
  names before it have been checked and copied.\<close>

lemma copy_loop_assertion:
  assumes "isdir fs d"
    and "outcome (copy_loop fs log (map (binary_path root) names) d) = Raised AssertionError"
  shows "\<exists>pre m post. names = pre @ m # post
           \<and> (\<forall>x\<in>set pre. isfile fs (binary_path root x))
           \<and> \<not> isfile fs (binary_path root m)
           \<and> calls (copy_loop fs log (map (binary_path root) names) d)
               = log @ loop_calls root d pre @ [Isfile (binary_path root m)]
           \<and> (\<forall>x\<in>set pre. files (copy_loop fs log (map (binary_path root) names) d) (d @ [x])
                               = fs (binary_path root x))"
  using assms
proof (induction names arbitrary: fs log)
  case Nil
  then show ?case by simp
next
  case (Cons k ks)
  let ?b = "binary_path root k"
  show ?case
  proof (cases "isfile fs ?b")
    case False
    show ?thesis
      apply (rule exI[of _ "[]"], rule exI[of _ k], rule exI[of _ ks])
      using False by (simp add: loop_calls_def)
  next
    case True
    show ?thesis
    proof (cases "copy fs ?b d")
      case (Inl e)
      with True Cons.prems(2) have "e = AssertionError" by simp
      with Inl copy_not_assertion[of fs ?b d] show ?thesis by simp
    next
      case (Inr fs1)
      from copy_into_dir_Inr[OF Cons.prems(1) Inr]
      obtain bytes md where src: "fs ?b = Some (File bytes md)" and ne: "?b \<noteq> d @ [k]"
        and fs1: "fs1 = fs(d @ [k] \<mapsto> File bytes md)"
        by auto
      from ne have dne: "d \<noteq> root @ [''build'', ''bin'']"
        by (simp add: binary_path_eq_dest)
      have keep: "fs1 (binary_path root m) = fs (binary_path root m)" for m
        using dne by (simp add: fs1 binary_path_eq_dest)
      have d1: "isdir fs1 d"
        unfolding fs1 using Cons.prems(1) by (rule isdir_upd_other) simp
      let ?log = "log @ [Isfile ?b, Copy ?b d]"
      let ?r = "copy_loop fs1 ?log (map (binary_path root) ks) d"
      have req: "copy_loop fs log (map (binary_path root) (k # ks)) d = ?r"
        using True Inr by simp
      have "outcome ?r = Raised AssertionError" using Cons.prems(2) req by simp
      from Cons.IH[OF d1 this]
      obtain pre m post where ks: "ks = pre @ m # post"
        and pres: "\<forall>x\<in>set pre. isfile fs1 (binary_path root x)"
        and miss: "\<not> isfile fs1 (binary_path root m)"
        and cl: "calls ?r = ?log @ loop_calls root d pre @ [Isfile (binary_path root m)]"
        and cp: "\<forall>x\<in>set pre. files ?r (d @ [x]) = fs1 (binary_path root x)"
        by blast
      have fk: "files ?r (d @ [k]) = fs ?b"
      proof -
        from copy_loop_frame[OF d1, of ?log root ks]
        have "files ?r (d @ [k]) = fs1 (d @ [k])
            \<or> (\<exists>j\<in>set ks. d @ [k] = d @ [j] \<and> isfile fs1 (binary_path root j)
                 \<and> files ?r (d @ [k]) = fs1 (binary_path root j))"
          by blast
        then show ?thesis using fs1 src keep by auto
      qed
      show ?thesis
        apply (rule exI[of _ "k # pre"], rule exI[of _ m], rule exI[of _ post])
        unfolding req
        using ks pres miss cl cp fk True
        by (simp add: keep isfile_binary loop_calls_Cons)
    qed
  qed
qed

text \<open>When the platform calls cannot fail, the loop completes exactly when every file is
  present, and fails with the assertion otherwise.\<close>

lemma can_write_upd_other: "p \<noteq> q \<Longrightarrow> can_write (fs(q \<mapsto> v)) p = can_write fs p"
  by (simp add: can_write_def)

lemma copy_loop_outcome:
  assumes "isdir fs d" and "d \<noteq> root @ [''build'', ''bin'']"
    and "distinct names"
    and "\<forall>n\<in>set names. can_write fs (d @ [n])"
  shows "outcome (copy_loop fs log (map (binary_path root) names) d)
           = (if \<forall>n\<in>set names. isfile fs (binary_path root n) then Completed
              else Raised AssertionError)"
  using assms
proof (induction names arbitrary: fs log)
  case Nil
  then show ?case by simp
next
  case (Cons k ks)
  let ?b = "binary_path root k"
  show ?case
  proof (cases "isfile fs ?b")
    case False
    then show ?thesis by simp
  next
    case True
    then obtain bytes md where src: "lookup fs ?b = Some (File bytes md)"
      by (auto simp: isfile_iff)
    have ne: "?b \<noteq> d @ [last ?b]"
      using Cons.prems(2) by (simp add: binary_path_eq_dest)
    have "can_write fs (d @ [last ?b])" using Cons.prems(4) by simp
    from copy_into_dir_ok[OF Cons.prems(1) src ne this]
    have cp: "copy fs ?b d = Inr (fs(d @ [k] \<mapsto> File bytes md))" by simp
    let ?fs1 = "fs(d @ [k] \<mapsto> File bytes md)"
    have keep: "?fs1 (binary_path root m) = fs (binary_path root m)" for m
      using Cons.prems(2) by (simp add: binary_path_eq_dest)
    have d1: "isdir ?fs1 d"
      using Cons.prems(1) by (rule isdir_upd_other) simp
    have dk: "distinct ks" and kn: "k \<notin> set ks" using Cons.prems(3) by simp_all
    have nd: "\<forall>n\<in>set ks. can_write ?fs1 (d @ [n])"
    proof
      fix n assume n: "n \<in> set ks"
      with kn have "d @ [n] \<noteq> d @ [k]" by auto
      then have "can_write ?fs1 (d @ [n]) = can_write fs (d @ [n])"
        by (rule can_write_upd_other)
      with Cons.prems(4) n show "can_write ?fs1 (d @ [n])" by simp
    qed
    have isf: "isfile ?fs1 (binary_path root m) = isfile fs (binary_path root m)" for m
      unfolding isfile_binary keep ..
    have "outcome (copy_loop ?fs1 (log @ [Isfile ?b, Copy ?b d]) (map (binary_path root) ks) d)
           = (if \<forall>n\<in>set ks. isfile fs (binary_path root n) then Completed
              else Raised AssertionError)"
      using Cons.IH[OF d1 Cons.prems(2) dk nd, of "log @ [Isfile ?b, Copy ?b d]"]
      unfolding isf .
    with True cp show ?thesis
      by simp
  qed
qed

section \<open>Properties of the whole method\<close>

lemma ensure_extdir_frame:
  "files (ensure_extdir fs d) q = fs q
     \<or> (fs q = None \<and> files (ensure_extdir fs d) q = Some Dir \<and> prefix q d \<and> q \<noteq> [])"
proof (cases "exists_path fs d")
  case True
  then show ?thesis by (simp add: ensure_extdir_def)
next
  case False
  obtain r fs' where m: "makedirs fs d = (r, fs')" by (cases "makedirs fs d")
  from makedirs_frame[OF m, of q] False m show ?thesis
    by (simp add: ensure_extdir_def)
qed

lemma ensure_extdir_isfile: "isfile (files (ensure_extdir fs d)) q = isfile fs q"
proof (cases "q = []")
  case True
  then show ?thesis by (simp add: isfile_iff)
next
  case False
  from ensure_extdir_frame[of fs d q]
  show ?thesis
  proof
    assume "files (ensure_extdir fs d) q = fs q"
    with False show ?thesis by (simp add: isfile_iff)
  next
    assume "fs q = None \<and> files (ensure_extdir fs d) q = Some Dir \<and> prefix q d \<and> q \<noteq> []"
    with False show ?thesis by (simp add: isfile_iff)
  qed
qed

lemma ensure_extdir_keeps:
  "fs q = Some v \<Longrightarrow> files (ensure_extdir fs d) q = Some v"
  using ensure_extdir_frame[of fs d q] by auto

lemma ensure_extdir_isdir:
  assumes "outcome (ensure_extdir fs d) = Completed" and "\<not> isfile fs d"
  shows "isdir (files (ensure_extdir fs d)) d"
proof (cases "exists_path fs d")
  case True
  with assms(2) have "isdir fs d"
    by (auto simp: exists_path_iff isfile_iff isdir_iff split: node.splits)
       (metis node.exhaust)
  with True show ?thesis by (simp add: ensure_extdir_def)
next
  case False
  obtain r fs' where m: "makedirs fs d = (r, fs')" by (cases "makedirs fs d")
  with assms(1) False have "r = Completed" by (simp add: ensure_extdir_def)
  with m makedirs_Completed_isdir[of fs d fs'] False show ?thesis
    by (simp add: ensure_extdir_def isdir_iff)
qed

lemma ensure_extdir_ok:
  assumes "\<forall>q\<in>set (prefixes d). \<not> isfile fs q"
  shows "outcome (ensure_extdir fs d) = Completed"
proof (cases "exists_path fs d")
  case True
  then show ?thesis by (simp add: ensure_extdir_def)
next
  case False
  from assms have "\<And>q. prefix q d \<Longrightarrow> \<not> isfile fs q"
    by simp
  from makedirs_ok[OF False this] obtain fs' where "makedirs fs d = (Completed, fs')"
    by blast
  with False show ?thesis by (simp add: ensure_extdir_def)
qed

lemma ensure_extdir_calls:
  "calls (ensure_extdir fs d) = (if exists_path fs d then [Exists d] else [Exists d, Makedirs d])"
  by (simp add: ensure_extdir_def split: prod.splits)

lemma build_extension_for_unfold:
  "build_extension_for names root d fs =
     (if outcome (ensure_extdir fs d) = Completed
      then copy_loop (files (ensure_extdir fs d)) (calls (ensure_extdir fs d))
             (map (binary_path root) names) d
      else ensure_extdir fs d)"
  by (cases "outcome (ensure_extdir fs d)") (simp_all add: build_extension_for_def Let_def)

text \<open>Under platform_ok the outcome is decided by the presence of the files alone.\<close>

lemma build_extension_for_outcome:
  assumes "platform_ok fs root d names"
  shows "outcome (build_extension_for names root d fs)
           = (if \<forall>n\<in>set names. isfile fs (binary_path root n) then Completed
              else Raised AssertionError)"
proof -
  let ?e = "ensure_extdir fs d"
  from assms have nf: "\<forall>q\<in>set (prefixes d). \<not> isfile fs q"
    and dne: "d \<noteq> root @ [''build'', ''bin'']"
    and nd: "\<forall>n\<in>set names. can_write fs (d @ [n])"
    by (simp_all add: platform_ok_def)
  have ok: "outcome ?e = Completed" using nf by (rule ensure_extdir_ok)
  from nf have "\<not> isfile fs d" by simp
  with ok have dir: "isdir (files ?e) d" by (rule ensure_extdir_isdir)
  from assms have dn: "distinct names" by (simp add: platform_ok_def)
  have nd': "\<forall>n\<in>set names. can_write (files ?e) (d @ [n])"
  proof
    fix n assume n: "n \<in> set names"
    have "\<not> prefix (d @ [n]) d" by (simp add: prefix_def)
    with ensure_extdir_frame[of fs d "d @ [n]"]
    have "files ?e (d @ [n]) = fs (d @ [n])" by auto
    with nd n show "can_write (files ?e) (d @ [n])" by (simp add: can_write_def)
  qed
  from copy_loop_outcome[OF dir dne dn nd', of "calls ?e"] ok
  show ?thesis
    by (simp add: build_extension_for_unfold ensure_extdir_isfile)
qed

lemma mkdir_errors:
  "mkdir fs p = Inl e \<Longrightarrow> e \<in> {FileExistsError, FileNotFoundError, NotADirectoryError}"
  by (auto simp: mkdir_def split: if_splits option.splits node.splits)

lemma makedirs_errors:
  "makedirs fs p = (Raised e, fs') \<Longrightarrow> e \<in> {FileExistsError, FileNotFoundError, NotADirectoryError}"
proof (induction fs p arbitrary: e fs' rule: makedirs.induct)
  case (1 fs p)
  show ?case
  proof (cases "p \<noteq> [] \<and> \<not> exists_path fs (butlast p)")
    case True
    obtain r1 fs1 where rec: "makedirs fs (butlast p) = (r1, fs1)"
      by (cases "makedirs fs (butlast p)")
    show ?thesis
    proof (cases r1)
      case Completed
      with "1.prems" True rec show ?thesis
        by (subst (asm) makedirs.simps) (auto split: sum.splits dest: mkdir_errors)
    next
      case (Raised e1)
      from "1.IH"[OF True] rec Raised
      have e1: "e1 \<in> {FileExistsError, FileNotFoundError, NotADirectoryError}" by simp
      with "1.prems" True rec Raised show ?thesis
        by (subst (asm) makedirs.simps) (auto split: sum.splits dest: mkdir_errors)
    qed
  next
    case False
    with "1.prems" show ?thesis
      by (subst (asm) makedirs.simps) (auto split: sum.splits dest: mkdir_errors)
  qed
qed

lemma ensure_extdir_not_assertion:
  "outcome (ensure_extdir fs d) \<noteq> Raised AssertionError"
proof (cases "exists_path fs d")
  case True
  then show ?thesis by (simp add: ensure_extdir_def)
next
  case False
  obtain r fs' where m: "makedirs fs d = (r, fs')" by (cases "makedirs fs d")
  with False makedirs_errors[of fs d AssertionError fs'] show ?thesis
    by (auto simp: ensure_extdir_def)
qed

lemma build_extension_for_assertion:
  assumes "\<not> isfile fs d"
    and "outcome (build_extension_for names root d fs) = Raised AssertionError"
  shows "\<exists>pre m post. names = pre @ m # post
           \<and> (\<forall>x\<in>set pre. isfile fs (binary_path root x))
           \<and> \<not> isfile fs (binary_path root m)
           \<and> calls (build_extension_for names root d fs)
               = calls (ensure_extdir fs d) @ loop_calls root d pre @ [Isfile (binary_path root m)]
           \<and> (\<forall>x\<in>set pre. files (build_extension_for names root d fs) (d @ [x])
                               = fs (binary_path root x))
           \<and> isdir (files (build_extension_for names root d fs)) d"
proof -
  let ?e = "ensure_extdir fs d"
  let ?r = "copy_loop (files ?e) (calls ?e) (map (binary_path root) names) d"
  have ok: "outcome ?e = Completed"
  proof (rule ccontr)
    assume n: "outcome ?e \<noteq> Completed"
    then have "build_extension_for names root d fs = ?e"
      by (simp add: build_extension_for_unfold)
    with assms(2) ensure_extdir_not_assertion[of fs d] show False by simp
  qed
  then have req: "build_extension_for names root d fs = ?r"
    by (simp add: build_extension_for_unfold)
  from ok assms(1) have dir: "isdir (files ?e) d" by (rule ensure_extdir_isdir)
  from assms(2) have "outcome ?r = Raised AssertionError" unfolding req .
  from copy_loop_assertion[OF dir this]
  obtain pre m post where n: "names = pre @ m # post"
    and pres: "\<forall>x\<in>set pre. isfile (files ?e) (binary_path root x)"
    and miss: "\<not> isfile (files ?e) (binary_path root m)"
    and cl: "calls ?r = calls ?e @ loop_calls root d pre @ [Isfile (binary_path root m)]"
    and cp: "\<forall>x\<in>set pre. files ?r (d @ [x]) = files ?e (binary_path root x)"
    by blast
  have cp': "\<forall>x\<in>set pre. files ?r (d @ [x]) = fs (binary_path root x)"
  proof
    fix x assume x: "x \<in> set pre"
    with pres have "isfile fs (binary_path root x)" by (simp add: ensure_extdir_isfile)
    then obtain bytes md where "fs (binary_path root x) = Some (File bytes md)"
      by (auto simp: isfile_binary)
    with ensure_extdir_keeps[of fs "binary_path root x" "File bytes md" d] cp x
    show "files ?r (d @ [x]) = fs (binary_path root x)" by simp
  qed
  have "isdir (files ?r) d" using copy_loop_frame[OF dir] by blast
  with n pres miss cl cp' show ?thesis
    unfolding req ensure_extdir_isfile by blast
qed

lemma build_extension_for_frame:
  assumes "\<not> isfile fs d"
  shows "files (build_extension_for names root d fs) p = fs p
       \<or> (fs p = None \<and> files (build_extension_for names root d fs) p = Some Dir
            \<and> prefix p d \<and> p \<noteq> [])
       \<or> (\<exists>n\<in>set names. p = d @ [n] \<and> isfile fs (binary_path root n)
            \<and> files (build_extension_for names root d fs) p = fs (binary_path root n))"
proof (cases "outcome (ensure_extdir fs d) = Completed")
  case False
  then have "build_extension_for names root d fs = ensure_extdir fs d"
    by (simp add: build_extension_for_unfold)
  with ensure_extdir_frame[of fs d p] show ?thesis by auto
next
  case True
  let ?e = "ensure_extdir fs d"
  let ?r = "copy_loop (files ?e) (calls ?e) (map (binary_path root) names) d"
  from True have req: "build_extension_for names root d fs = ?r"
    by (simp add: build_extension_for_unfold)
  from True assms have dir: "isdir (files ?e) d" by (rule ensure_extdir_isdir)
  from copy_loop_frame[OF dir, of "calls ?e" root names]
  have "files ?r p = files ?e p
      \<or> (\<exists>n\<in>set names. p = d @ [n] \<and> isfile (files ?e) (binary_path root n)
            \<and> files ?r p = files ?e (binary_path root n))"
    by blast
  then show ?thesis
  proof
    assume "files ?r p = files ?e p"
    with ensure_extdir_frame[of fs d p] show ?thesis unfolding req by auto
  next
    assume "\<exists>n\<in>set names. p = d @ [n] \<and> isfile (files ?e) (binary_path root n)
            \<and> files ?r p = files ?e (binary_path root n)"
    then obtain n where n: "n \<in> set names" "p = d @ [n]"
      and f: "isfile fs (binary_path root n)"
      and eq: "files ?r p = files ?e (binary_path root n)"
      unfolding ensure_extdir_isfile by blast
    from f obtain bytes md where "fs (binary_path root n) = Some (File bytes md)"
      by (auto simp: isfile_binary)
    with ensure_extdir_keeps[of fs "binary_path root n" "File bytes md" d] eq
    have "files ?r p = fs (binary_path root n)" by simp
    with n f show ?thesis unfolding req by blast
  qed
qed

lemma build_extension_for_completed:
  assumes "\<not> isfile fs d"
    and "outcome (build_extension_for names root d fs) = Completed"
  shows "isdir (files (build_extension_for names root d fs)) d
       \<and> (\<forall>n\<in>set names. \<exists>bytes md. fs (binary_path root n) = Some (File bytes md)
              \<and> files (build_extension_for names root d fs) (d @ [n]) = Some (File bytes md)
              \<and> d \<noteq> root @ [''build'', ''bin''])"
proof -
  let ?e = "ensure_extdir fs d"
  let ?r = "copy_loop (files ?e) (calls ?e) (map (binary_path root) names) d"
  have ok: "outcome ?e = Completed"
    using assms(2) by (auto simp: build_extension_for_unfold split: if_splits)
  then have req: "build_extension_for names root d fs = ?r"
    by (simp add: build_extension_for_unfold)
  from ok assms(1) have dir: "isdir (files ?e) d" by (rule ensure_extdir_isdir)
  from assms(2) have fin: "outcome ?r = Completed" unfolding req .
  have a: "isdir (files ?r) d" using copy_loop_frame[OF dir] by blast
  have b: "\<exists>bytes md. fs (binary_path root n) = Some (File bytes md)
              \<and> files ?r (d @ [n]) = Some (File bytes md)
              \<and> d \<noteq> root @ [''build'', ''bin'']" if n: "n \<in> set names" for n
  proof -
    from copy_loop_completed[OF dir fin n]
    have f: "isfile fs (binary_path root n)"
      and eq: "files ?r (d @ [n]) = files ?e (binary_path root n)"
      and dne: "d \<noteq> root @ [''build'', ''bin'']"
      unfolding ensure_extdir_isfile by blast+
    from f obtain bytes md where s: "fs (binary_path root n) = Some (File bytes md)"
      by (auto simp: isfile_binary)
    with ensure_extdir_keeps[of fs "binary_path root n" "File bytes md" d] eq
    have "files ?r (d @ [n]) = Some (File bytes md)" by simp
    with s dne show ?thesis by blast
  qed
  from a b show ?thesis unfolding req by blast
qed

lemma build_extension_for_calls:
  "\<exists>rest. calls (build_extension_for names root d fs) = calls (ensure_extdir fs d) @ rest
         \<and> prefix rest (loop_calls root d names)
         \<and> (outcome (build_extension_for names root d fs) = Completed
              \<longrightarrow> rest = loop_calls root d names)"
proof (cases "outcome (ensure_extdir fs d) = Completed")
  case False
  then have "build_extension_for names root d fs = ensure_extdir fs d"
    by (simp add: build_extension_for_unfold)
  with False show ?thesis by simp
next
  case True
  then have req: "build_extension_for names root d fs
      = copy_loop (files (ensure_extdir fs d)) (calls (ensure_extdir fs d))
          (map (binary_path root) names) d"
    by (simp add: build_extension_for_unfold)
  show ?thesis unfolding req by (rule copy_loop_calls)
qed

text \<open>A source file is never changed.\<close>

lemma build_extension_for_sources:
  assumes "\<not> isfile fs d" and "fs (binary_path root m) = Some (File bytes md)"
  shows "files (build_extension_for names root d fs) (binary_path root m) = Some (File bytes md)"
proof (cases "outcome (ensure_extdir fs d) = Completed")
  case False
  then have "build_extension_for names root d fs = ensure_extdir fs d"
    by (simp add: build_extension_for_unfold)
  with ensure_extdir_keeps[of fs "binary_path root m" "File bytes md" d] assms(2)
  show ?thesis by simp
next
  case True
  let ?e = "ensure_extdir fs d"
  from True have req: "build_extension_for names root d fs
      = copy_loop (files ?e) (calls ?e) (map (binary_path root) names) d"
    by (simp add: build_extension_for_unfold)
  from True assms(1) have dir: "isdir (files ?e) d" by (rule ensure_extdir_isdir)
  from copy_loop_frame[OF dir, of "calls ?e" root names]
  have "files (copy_loop (files ?e) (calls ?e) (map (binary_path root) names) d) (binary_path root m)
          = files ?e (binary_path root m)"
    by blast
  with ensure_extdir_keeps[of fs "binary_path root m" "File bytes md" d] assms(2)
  show ?thesis unfolding req by simp
qed

subsection \<open>A destination path that is a regular file\<close>

text \<open>Then \<open>shutil.copy\<close> writes that file itself, and nothing else.\<close>

lemma copy_file_dest_Inr:
  assumes "isfile fs d" and "copy fs src d = Inr fs'"
  shows "\<exists>bytes md. fs' = fs(d \<mapsto> File bytes md)"
proof -
  from assms(1) have dne: "d \<noteq> []" and nd: "\<not> isdir fs d"
    by (auto simp: isfile_iff isdir_iff)
  from assms(2) nd obtain fs1 where cf: "copyfile fs src d = Inr fs1"
    and cm: "copymode fs1 src d = Inr fs'"
    by (auto simp: copy_def split: sum.splits)
  from copyfile_Inr[OF cf dne] obtain bytes m' where fs1: "fs1 = fs(d \<mapsto> File bytes m')"
    by blast
  from cm dne have "fs' = fs1 \<or> (\<exists>md. fs' = fs1(d \<mapsto> File bytes md))"
    unfolding fs1 by (auto simp: copymode_def split: option.splits node.splits)
  then show ?thesis unfolding fs1 by auto
qed

lemma copy_loop_file_dest:
  assumes "isfile fs d"
  shows "isfile (files (copy_loop fs log bs d)) d
       \<and> (\<forall>p. p \<noteq> d \<longrightarrow> files (copy_loop fs log bs d) p = fs p)"
  using assms
proof (induction bs arbitrary: fs log)
  case Nil
  then show ?case by simp
next
  case (Cons b bs)
  show ?case
  proof (cases "isfile fs b")
    case False
    with Cons.prems show ?thesis by simp
  next
    case True
    show ?thesis
    proof (cases "copy fs b d")
      case (Inl e)
      with True Cons.prems show ?thesis by simp
    next
      case (Inr fs1)
      from copy_file_dest_Inr[OF Cons.prems Inr] obtain bytes md
        where fs1: "fs1 = fs(d \<mapsto> File bytes md)" by blast
      from Cons.prems have "d \<noteq> []" by (auto simp: isfile_iff)
      then have f1: "isfile fs1 d" unfolding fs1 by (simp add: isfile_iff)
      let ?r = "copy_loop fs1 (log @ [Isfile b, Copy b d]) bs d"
      have req: "copy_loop fs log (b # bs) d = ?r" using True Inr by simp
      from Cons.IH[OF f1, of "log @ [Isfile b, Copy b d]"]
      have a: "isfile (files ?r) d" and b: "\<And>p. p \<noteq> d \<Longrightarrow> files ?r p = fs1 p"
        by blast+
      have "files ?r p = fs p" if "p \<noteq> d" for p
        using b[OF that] that unfolding fs1 by simp
      with a show ?thesis unfolding req by blast
    qed
  qed
qed

text \<open>Every path the method changes, whatever the destination path is.\<close>

lemma build_extension_for_writes:
  "files (build_extension_for names root d fs) p = fs p
     \<or> (fs p = None \<and> files (build_extension_for names root d fs) p = Some Dir
          \<and> prefix p d \<and> p \<noteq> [])
     \<or> (\<not> isfile fs d \<and> (\<exists>n\<in>set names. p = d @ [n] \<and> isfile fs (binary_path root n)
          \<and> files (build_extension_for names root d fs) p = fs (binary_path root n)))
     \<or> (isfile fs d \<and> p = d)"
proof (cases "isfile fs d")
  case False
  with build_extension_for_frame[OF False, of names root p] show ?thesis by blast
next
  case True
  then have "exists_path fs d" by (auto simp: isfile_iff exists_path_iff)
  then have "build_extension_for names root d fs
      = copy_loop fs [Exists d] (map (binary_path root) names) d"
    by (simp add: build_extension_for_unfold ensure_extdir_def)
  with copy_loop_file_dest[OF True, of "[Exists d]" "map (binary_path root) names"] True
  show ?thesis by (cases "p = d") auto
qed

section \<open>The staging step: settled claims\<close>

lemmas fixture_defs = root0_def ext0_def fs_both_def fs_first_only_def fs_second_only_def fs_only_a_def
  fs_with_rtl_def fs_stale_def fs_stale_readonly_def fs_readonly_def fs_blocked_def
  fs_first_blocked_def binary_path_def binary_names_def

lemmas run_defs = build_extension_def build_extension_for_def ensure_extdir_def
  makedirs.simps mkdir_def copy_def copyfile_def copymode_def exists_path_def isdir_def
  isfile_def lookup_def owner_writable_def new_file_mode_def Let_def

lemmas ok_defs = platform_ok_def can_write_def owner_writable_def isfile_def isdir_def lookup_def

lemma platform_ok_both: "platform_ok fs_both root0 ext0 binary_names"
  by (simp add: ok_defs fixture_defs)



lemma present_both: "\<forall>n\<in>set binary_names. isfile fs_both (binary_path root0 n)"
  by (simp add: fixture_defs isfile_def lookup_def)




lemma not_isfile_ext0_both: "\<not> isfile fs_both ext0"
  by (simp add: fixture_defs isfile_def lookup_def)



text \<open>
  Claim C3. With every file of \<open>binary_names\<close> present in \<open>build/bin\<close> and the destination
  absent or a directory, once \<open>build_extension\<close> has completed each name is a regular file
  in the destination whose bytes are those of its source; and on a file system where no
  platform call can raise it does complete.
\<close>

theorem build_extension_copies_content:
  assumes "\<forall>n\<in>set binary_names. isfile fs (binary_path root_dir n)"
    and "\<not> isfile fs extdir"
  shows "(outcome (build_extension root_dir extdir fs) = Completed \<longrightarrow>
            (\<forall>n\<in>set binary_names. \<exists>bytes md.
                fs (binary_path root_dir n) = Some (File bytes md)
              \<and> files (build_extension root_dir extdir fs) (extdir @ [n]) = Some (File bytes md)))
       \<and> (platform_ok fs root_dir extdir binary_names \<longrightarrow>
            outcome (build_extension root_dir extdir fs) = Completed)"
proof
  show "outcome (build_extension root_dir extdir fs) = Completed \<longrightarrow>
            (\<forall>n\<in>set binary_names. \<exists>bytes md.
                fs (binary_path root_dir n) = Some (File bytes md)
              \<and> files (build_extension root_dir extdir fs) (extdir @ [n]) = Some (File bytes md))"
    unfolding build_extension_def
    using build_extension_for_completed[OF assms(2), of binary_names root_dir] by blast
  show "platform_ok fs root_dir extdir binary_names \<longrightarrow>
            outcome (build_extension root_dir extdir fs) = Completed"
    unfolding build_extension_def
    using assms(1) by (simp add: build_extension_for_outcome)
qed

theorem build_extension_copies_content_witness:
  "outcome (build_extension root0 ext0 fs_both) = Completed
 \<and> files (build_extension root0 ext0 fs_both) (ext0 @ [''circt-opt'']) = Some (File [1, 2, 3] 493)
 \<and> files (build_extension root0 ext0 fs_both) (ext0 @ [''firtool'']) = Some (File [4, 5] 493)"
proof -
  note t = build_extension_copies_content[OF present_both not_isfile_ext0_both]
  from t platform_ok_both have a: "outcome (build_extension root0 ext0 fs_both) = Completed"
    by blast
  with t have "\<forall>n\<in>set binary_names. \<exists>bytes md.
                fs_both (binary_path root0 n) = Some (File bytes md)
              \<and> files (build_extension root0 ext0 fs_both) (ext0 @ [n]) = Some (File bytes md)"
    by blast
  then have "files (build_extension root0 ext0 fs_both) (ext0 @ [''circt-opt'']) = Some (File [1, 2, 3] 493)
     \<and> files (build_extension root0 ext0 fs_both) (ext0 @ [''firtool'']) = Some (File [4, 5] 493)"
    by (simp add: binary_names_def fs_both_def binary_path_def root0_def)
  with a show ?thesis by simp
qed

text \<open>
  Claim C4. When the destination does not exist (and no directory above it is a regular
  file, which would make the platform refuse), the first statement creates it: the creation
  completes, and the destination is a directory afterwards and at the end of
  \<open>build_extension\<close> whatever the loop does. When the destination exists, the first statement
  changes nothing, calls no \<open>makedirs\<close> and raises nothing.
\<close>

theorem ensure_extdir_creates_or_keeps:
  "(\<not> exists_path fs extdir \<and> (\<forall>q\<in>set (prefixes extdir). \<not> isfile fs q) \<longrightarrow>
        outcome (ensure_extdir fs extdir) = Completed
      \<and> calls (ensure_extdir fs extdir) = [Exists extdir, Makedirs extdir]
      \<and> isdir (files (ensure_extdir fs extdir)) extdir
      \<and> isdir (files (build_extension root_dir extdir fs)) extdir)
 \<and> (exists_path fs extdir \<longrightarrow>
        ensure_extdir fs extdir = \<lparr>outcome = Completed, files = fs, calls = [Exists extdir]\<rparr>)"
proof (intro conjI impI)
  assume "exists_path fs extdir"
  then show "ensure_extdir fs extdir = \<lparr>outcome = Completed, files = fs, calls = [Exists extdir]\<rparr>"
    by (simp add: ensure_extdir_def)
next
  assume a: "\<not> exists_path fs extdir \<and> (\<forall>q\<in>set (prefixes extdir). \<not> isfile fs q)"
  let ?e = "ensure_extdir fs extdir"
  from a show ok: "outcome ?e = Completed" by (simp add: ensure_extdir_ok)
  from a show "calls ?e = [Exists extdir, Makedirs extdir]"
    by (simp add: ensure_extdir_calls)
  from a have nf: "\<not> isfile fs extdir" by simp
  with ok show dir: "isdir (files ?e) extdir" by (rule ensure_extdir_isdir)
  from ok have "build_extension root_dir extdir fs
      = copy_loop (files ?e) (calls ?e) (map (binary_path root_dir) binary_names) extdir"
    by (simp add: build_extension_def build_extension_for_unfold)
  with copy_loop_frame[OF dir, of "calls ?e" root_dir binary_names]
  show "isdir (files (build_extension root_dir extdir fs)) extdir" by simp
qed

theorem ensure_extdir_creates_or_keeps_witness:
  "isdir (files (ensure_extdir fs_both ext0)) ext0
 \<and> isdir (files (build_extension root0 ext0 fs_both)) ext0
 \<and> \<not> exists_path fs_both ext0
 \<and> ensure_extdir fs_stale ext0 = \<lparr>outcome = Completed, files = fs_stale, calls = [Exists ext0]\<rparr>"
proof -
  have a: "\<not> exists_path fs_both ext0 \<and> (\<forall>q\<in>set (prefixes ext0). \<not> isfile fs_both q)"
    by (simp add: fixture_defs exists_path_def isfile_def lookup_def)
  have b: "exists_path fs_stale ext0"
    by (simp add: fixture_defs exists_path_def lookup_def)
  from a b ensure_extdir_creates_or_keeps[of fs_both ext0 root0]
    ensure_extdir_creates_or_keeps[of fs_stale ext0 root0]
  show ?thesis by blast
qed

lemma distinct_binary_names: "distinct binary_names"
  by (simp add: binary_names_def)

lemma run_readonly:
  "build_extension root0 ext0 fs_readonly =
     \<lparr>outcome = Completed,
      files = fs_readonly([''out''] \<mapsto> Dir, ext0 \<mapsto> Dir,
                ext0 @ [''circt-opt''] \<mapsto> File [1, 2, 3] 365,
                ext0 @ [''firtool''] \<mapsto> File [4, 5] 365),
      calls = [Exists ext0, Makedirs ext0,
               Isfile (binary_path root0 ''circt-opt''), Copy (binary_path root0 ''circt-opt'') ext0,
               Isfile (binary_path root0 ''firtool''), Copy (binary_path root0 ''firtool'') ext0]\<rparr>"
  by (simp add: run_defs fixture_defs)

text \<open>
  Claim C5 as stated fails. \<open>shutil.copy\<close> gives each copy the permission bits of its
  source, and the second run has to open those copies for writing. With sources of mode
  555 (read and execute only) the first run completes and the second raises
  \<open>PermissionError\<close> at the first copy.
\<close>

theorem build_extension_idempotent_counterexample:
  "outcome (build_extension root0 ext0 fs_readonly) = Completed
 \<and> outcome (build_extension root0 ext0 (files (build_extension root0 ext0 fs_readonly)))
      = Raised PermissionError"
  unfolding run_readonly
  by (simp add: run_defs fixture_defs)

text \<open>
  Claim C5 as amended. With the destination absent or a directory and every source file
  writable by its owner, when a first run of \<open>build_extension\<close> has completed, a second run
  on the file system it left completes too and leaves exactly the same file system: nothing
  is added and nothing raises.
\<close>

theorem build_extension_idempotent:
  assumes "\<not> isfile fs extdir"
    and "outcome (build_extension root_dir extdir fs) = Completed"
    and "\<forall>n\<in>set binary_names. \<forall>bytes md.
           fs (binary_path root_dir n) = Some (File bytes md) \<longrightarrow> owner_writable md"
  shows "outcome (build_extension root_dir extdir (files (build_extension root_dir extdir fs)))
           = Completed
       \<and> files (build_extension root_dir extdir (files (build_extension root_dir extdir fs)))
           = files (build_extension root_dir extdir fs)"
proof -
  let ?names = binary_names
  let ?r1 = "build_extension_for ?names root_dir extdir fs"
  let ?fs1 = "files ?r1"
  let ?r2 = "build_extension_for ?names root_dir extdir ?fs1"
  from assms(2) have c1: "outcome ?r1 = Completed" by (simp add: build_extension_def)
  note fin = build_extension_for_completed[OF assms(1) c1]
  from fin have dir1: "isdir ?fs1 extdir" by blast
  have src: "\<exists>bytes md. fs (binary_path root_dir n) = Some (File bytes md)
              \<and> owner_writable md
              \<and> ?fs1 (extdir @ [n]) = Some (File bytes md)
              \<and> ?fs1 (binary_path root_dir n) = Some (File bytes md)
              \<and> extdir \<noteq> root_dir @ [''build'', ''bin'']" if "n \<in> set ?names" for n
  proof -
    from fin that obtain bytes md where b: "fs (binary_path root_dir n) = Some (File bytes md)"
      "?fs1 (extdir @ [n]) = Some (File bytes md)" "extdir \<noteq> root_dir @ [''build'', ''bin'']"
      by blast
    from build_extension_for_sources[OF assms(1) b(1), of ?names]
    have "?fs1 (binary_path root_dir n) = Some (File bytes md)" .
    moreover from assms(3) that b(1) have "owner_writable md" by blast
    ultimately show ?thesis using b by blast
  qed
  have ex1: "exists_path ?fs1 extdir" using dir1 by (simp add: isdir_iff exists_path_iff)
  let ?l2 = "copy_loop ?fs1 [Exists extdir] (map (binary_path root_dir) ?names) extdir"
  from ex1 have r2: "?r2 = ?l2"
    by (simp add: build_extension_for_unfold ensure_extdir_def)
  have dne: "extdir \<noteq> root_dir @ [''build'', ''bin'']"
  proof -
    have "''firtool'' \<in> set binary_names" by (simp add: binary_names_def)
    from src[OF this] show ?thesis by blast
  qed
  have nd: "\<forall>n\<in>set ?names. can_write ?fs1 (extdir @ [n])"
  proof
    fix n assume "n \<in> set ?names"
    from src[OF this] show "can_write ?fs1 (extdir @ [n])"
      by (auto simp: can_write_def)
  qed
  have pres: "\<forall>n\<in>set ?names. isfile ?fs1 (binary_path root_dir n)"
    using src by (fastforce simp: isfile_binary)
  from copy_loop_outcome[OF dir1 dne distinct_binary_names nd, of "[Exists extdir]"] pres
  have o2: "outcome ?l2 = Completed" by simp
  have "files ?l2 p = ?fs1 p" for p
  proof -
    from copy_loop_frame[OF dir1, of "[Exists extdir]" root_dir ?names]
    have "files ?l2 p = ?fs1 p
        \<or> (\<exists>n\<in>set ?names. p = extdir @ [n] \<and> isfile ?fs1 (binary_path root_dir n)
              \<and> files ?l2 p = ?fs1 (binary_path root_dir n))"
      by blast
    then show ?thesis
    proof
      assume "files ?l2 p = ?fs1 p" then show ?thesis .
    next
      assume "\<exists>n\<in>set ?names. p = extdir @ [n] \<and> isfile ?fs1 (binary_path root_dir n)
              \<and> files ?l2 p = ?fs1 (binary_path root_dir n)"
      then obtain n where n: "n \<in> set ?names" "p = extdir @ [n]"
        "files ?l2 p = ?fs1 (binary_path root_dir n)" by blast
      with src[OF n(1)] show ?thesis by auto
    qed
  qed
  then have "files ?l2 = ?fs1" by (rule ext)
  with o2 show ?thesis unfolding build_extension_def r2 by simp
qed

theorem build_extension_idempotent_witness:
  "outcome (build_extension root0 ext0 fs_both) = Completed
 \<and> outcome (build_extension root0 ext0 (files (build_extension root0 ext0 fs_both))) = Completed
 \<and> files (build_extension root0 ext0 (files (build_extension root0 ext0 fs_both)))
      = files (build_extension root0 ext0 fs_both)"
proof -
  have a: "outcome (build_extension root0 ext0 fs_both) = Completed"
    unfolding build_extension_def
    using present_both by (simp add: build_extension_for_outcome[OF platform_ok_both])
  have w: "\<forall>n\<in>set binary_names. \<forall>bytes md.
           fs_both (binary_path root0 n) = Some (File bytes md) \<longrightarrow> owner_writable md"
    by (simp add: fixture_defs owner_writable_def)
  from build_extension_idempotent[OF not_isfile_ext0_both a w] a show ?thesis by simp
qed

lemma circt_in_names: "''circt-opt'' \<in> set binary_names"
  by (simp add: binary_names_def)

lemma firtool_in_names: "''firtool'' \<in> set binary_names"
  by (simp add: binary_names_def)

lemma entries_below_both: "entries_below fs_both ext0 = {}"
  by (auto simp: entries_below_def fixture_defs)

text \<open>
  Claim C6. With \<open>binary_names = ["circt-opt", "firtool"]\<close>, both files present in
  \<open>build/bin\<close> and nothing below the destination path (it is absent, or an empty directory),
  once \<open>build_extension\<close> has completed the entries below the destination are exactly
  \<open>circt-opt\<close> and \<open>firtool\<close>, both regular files; and it does complete unless the platform
  cannot create the destination because a regular file is in the way.
\<close>

theorem build_extension_exactly_two:
  assumes "\<forall>n\<in>set binary_names. isfile fs (binary_path root_dir n)"
    and "entries_below fs extdir = {}"
    and "\<not> isfile fs extdir"
  shows "(outcome (build_extension root_dir extdir fs) = Completed \<longrightarrow>
            entries_below (files (build_extension root_dir extdir fs)) extdir
              = {[''circt-opt''], [''firtool'']}
          \<and> isfile (files (build_extension root_dir extdir fs)) (extdir @ [''circt-opt''])
          \<and> isfile (files (build_extension root_dir extdir fs)) (extdir @ [''firtool'']))
       \<and> ((\<forall>q\<in>set (prefixes extdir). \<not> isfile fs q) \<longrightarrow>
            outcome (build_extension root_dir extdir fs) = Completed)"
proof (intro conjI impI)
  let ?r = "build_extension_for binary_names root_dir extdir fs"
  have none: "fs (extdir @ q) = None" if "q \<noteq> []" for q
    using assms(2) that by (auto simp: entries_below_def)
  {
    assume "outcome (build_extension root_dir extdir fs) = Completed"
    then have c: "outcome ?r = Completed" by (simp add: build_extension_def)
    note fin = build_extension_for_completed[OF assms(3) c]
    have in_names: "files ?r (extdir @ [n]) \<noteq> None \<and> isfile (files ?r) (extdir @ [n])"
      if "n \<in> set binary_names" for n
      using fin that by (fastforce simp: isfile_iff)
    have only: "\<exists>n\<in>set binary_names. q = [n]"
      if q: "q \<noteq> []" and ex: "files ?r (extdir @ q) \<noteq> None" for q
    proof -
      from build_extension_for_frame[OF assms(3), of binary_names root_dir "extdir @ q"]
      consider "files ?r (extdir @ q) = fs (extdir @ q)"
        | "prefix (extdir @ q) extdir"
        | n where "n \<in> set binary_names" "extdir @ q = extdir @ [n]"
        by blast
      then show ?thesis
      proof cases
        case 1
        with none[OF q] ex show ?thesis by simp
      next
        case 2
        with q show ?thesis by (simp add: prefix_def)
      next
        case 3
        then show ?thesis by auto
      qed
    qed
    have "entries_below (files ?r) extdir = (\<lambda>n. [n]) ` set binary_names"
    proof (rule set_eqI)
      fix q
      show "q \<in> entries_below (files ?r) extdir \<longleftrightarrow> q \<in> (\<lambda>n. [n]) ` set binary_names"
        using only[of q] in_names by (auto simp: entries_below_def)
    qed
    then show "entries_below (files (build_extension root_dir extdir fs)) extdir
              = {[''circt-opt''], [''firtool'']}"
      by (simp add: build_extension_def) (simp add: binary_names_def)
    from in_names[OF circt_in_names]
    show "isfile (files (build_extension root_dir extdir fs)) (extdir @ [''circt-opt''])"
      by (simp add: build_extension_def)
    from in_names[OF firtool_in_names]
    show "isfile (files (build_extension root_dir extdir fs)) (extdir @ [''firtool''])"
      by (simp add: build_extension_def)
  }
  assume nf: "\<forall>q\<in>set (prefixes extdir). \<not> isfile fs q"
  from assms(1) circt_in_names
  have "fs ((root_dir @ [''build'', ''bin'']) @ [''circt-opt'']) \<noteq> None"
    by (fastforce simp: isfile_iff binary_path_def)
  with none[of "[''circt-opt'']"] have dne: "extdir \<noteq> root_dir @ [''build'', ''bin'']"
    by auto
  have "platform_ok fs root_dir extdir binary_names"
    unfolding platform_ok_def using nf dne none distinct_binary_names
    by (simp add: can_write_def)
  from build_extension_for_outcome[OF this] assms(1)
  show "outcome (build_extension root_dir extdir fs) = Completed"
    by (simp add: build_extension_def)
qed

theorem build_extension_exactly_two_witness:
  "outcome (build_extension root0 ext0 fs_both) = Completed
 \<and> entries_below (files (build_extension root0 ext0 fs_both)) ext0
      = {[''circt-opt''], [''firtool'']}"
proof -
  note t = build_extension_exactly_two[OF present_both entries_below_both not_isfile_ext0_both]
  have "\<forall>q\<in>set (prefixes ext0). \<not> isfile fs_both q"
    by (simp add: fixture_defs isfile_def lookup_def)
  with t show ?thesis by blast
qed


lemma loop_calls_set:
  "c \<in> set (loop_calls root d names) \<Longrightarrow>
     \<exists>n\<in>set names. c = Isfile (binary_path root n) \<or> c = Copy (binary_path root n) d"
  by (auto simp: loop_calls_def)





text \<open>
  Claim C9 as stated fails. The method writes outside the destination directory: a missing
  parent of the destination is created by \<open>makedirs\<close>. And a source file can change: when the
  destination path is itself the regular file \<open>build/bin/firtool\<close>, \<open>shutil.copy\<close> writes the
  bytes of \<open>circt-opt\<close> into it before the run stops.
\<close>

theorem build_extension_frame_counterexample:
  "fs_both [''out''] = None
 \<and> files (build_extension root0 ext0 fs_both) [''out''] = Some Dir
 \<and> \<not> prefix ext0 [''out'']
 \<and> fs_both (binary_path root0 ''firtool'') = Some (File [4, 5] 493)
 \<and> files (build_extension root0 (binary_path root0 ''firtool'') fs_both)
       (binary_path root0 ''firtool'') = Some (File [1, 2, 3] 493)"
  by (simp add: run_defs fixture_defs)

text \<open>
  Claim C9 as amended. Whatever the outcome, the only paths whose entry differs afterwards
  are the directories \<open>makedirs\<close> created (the destination and its missing parents), the
  files \<open>extdir/<name>\<close> for the names of \<open>binary_names\<close>, and, when the destination path is
  itself a regular file, that file. When the destination is absent or a directory, every
  regular file \<open>build/bin/<name>\<close> is still there with the same bytes and permission bits.
  The only paths the method checks or reads are the destination and \<open>build/bin/<name>\<close> for
  the names of \<open>binary_names\<close>.
\<close>

theorem build_extension_frame:
  "(\<forall>p. files (build_extension root_dir extdir fs) p \<noteq> fs p \<longrightarrow>
        (fs p = None \<and> files (build_extension root_dir extdir fs) p = Some Dir
           \<and> prefix p extdir)
      \<or> (\<not> isfile fs extdir \<and> (\<exists>n\<in>set binary_names. p = extdir @ [n]))
      \<or> (isfile fs extdir \<and> p = extdir))
 \<and> (\<not> isfile fs extdir \<longrightarrow>
       (\<forall>name bytes md. fs (binary_path root_dir name) = Some (File bytes md) \<longrightarrow>
            files (build_extension root_dir extdir fs) (binary_path root_dir name)
              = Some (File bytes md)))
 \<and> (\<forall>c\<in>set (calls (build_extension root_dir extdir fs)).
         c = Exists extdir \<or> c = Makedirs extdir
       \<or> (\<exists>n\<in>set binary_names. c = Isfile (binary_path root_dir n)
                                \<or> c = Copy (binary_path root_dir n) extdir))"
proof (intro conjI allI impI ballI)
  fix name bytes md
  assume "\<not> isfile fs extdir" and "fs (binary_path root_dir name) = Some (File bytes md)"
  from build_extension_for_sources[OF this]
  show "files (build_extension root_dir extdir fs) (binary_path root_dir name) = Some (File bytes md)"
    by (simp add: build_extension_def)
next
  fix p
  assume "files (build_extension root_dir extdir fs) p \<noteq> fs p"
  with build_extension_for_writes[of binary_names root_dir extdir fs p]
  show "(fs p = None \<and> files (build_extension root_dir extdir fs) p = Some Dir \<and> prefix p extdir)
      \<or> (\<not> isfile fs extdir \<and> (\<exists>n\<in>set binary_names. p = extdir @ [n]))
      \<or> (isfile fs extdir \<and> p = extdir)"
    unfolding build_extension_def by blast
next
  fix c
  assume c: "c \<in> set (calls (build_extension root_dir extdir fs))"
  from build_extension_for_calls[of binary_names root_dir extdir fs]
  obtain rest where r: "calls (build_extension root_dir extdir fs)
        = calls (ensure_extdir fs extdir) @ rest"
    and p: "prefix rest (loop_calls root_dir extdir binary_names)"
    unfolding build_extension_def by blast
  from c r consider "c \<in> set (calls (ensure_extdir fs extdir))" | "c \<in> set rest" by auto
  then show "c = Exists extdir \<or> c = Makedirs extdir
             \<or> (\<exists>n\<in>set binary_names. c = Isfile (binary_path root_dir n)
                                      \<or> c = Copy (binary_path root_dir n) extdir)"
  proof cases
    case 1
    then show ?thesis by (auto simp: ensure_extdir_calls split: if_splits)
  next
    case 2
    with p have "c \<in> set (loop_calls root_dir extdir binary_names)"
      using set_mono_prefix by blast
    from loop_calls_set[OF this] show ?thesis by blast
  qed
qed

theorem build_extension_frame_witness:
  "files (build_extension root0 ext0 fs_first_only) (binary_path root0 ''circt-opt'')
     = Some (File [1, 2, 3] 493)
 \<and> files (build_extension root0 ext0 fs_both) (binary_path root0 ''firtool'')
     = Some (File [4, 5] 493)
 \<and> files (build_extension root0 ext0 fs_both) [''elsewhere''] = None"
proof -
  have a: "\<not> isfile fs_first_only ext0" by (simp add: fixture_defs isfile_def lookup_def)
  have b: "fs_first_only (binary_path root0 ''circt-opt'') = Some (File [1, 2, 3] 493)"
    by (simp add: fixture_defs)
  have c: "fs_both (binary_path root0 ''firtool'') = Some (File [4, 5] 493)"
    by (simp add: fixture_defs)
  note t1 = build_extension_frame[of root0 ext0 fs_first_only]
  note t2 = build_extension_frame[of root0 ext0 fs_both]
  from t1[THEN conjunct2, THEN conjunct1, rule_format, OF a b]
  have x: "files (build_extension root0 ext0 fs_first_only) (binary_path root0 ''circt-opt'')
     = Some (File [1, 2, 3] 493)" .
  from t2[THEN conjunct2, THEN conjunct1, rule_format, OF not_isfile_ext0_both c]
  have y: "files (build_extension root0 ext0 fs_both) (binary_path root0 ''firtool'')
     = Some (File [4, 5] 493)" .
  have e: "fs_both [''elsewhere''] = None" "\<not> prefix [''elsewhere''] ext0"
    "\<forall>n\<in>set binary_names. [''elsewhere''] \<noteq> ext0 @ [n]" "[''elsewhere''] \<noteq> ext0"
    by (simp_all add: fixture_defs)
  have z: "files (build_extension root0 ext0 fs_both) [''elsewhere''] = None"
  proof (rule ccontr)
    assume "files (build_extension root0 ext0 fs_both) [''elsewhere''] \<noteq> None"
    with e(1) have "files (build_extension root0 ext0 fs_both) [''elsewhere'']
        \<noteq> fs_both [''elsewhere'']" by simp
    from t2[THEN conjunct1, rule_format, OF this] e show False by blast
  qed
  from x y z show ?thesis by simp
qed

lemma run_first_only:
  "build_extension root0 ext0 fs_first_only =
     \<lparr>outcome = Raised AssertionError,
      files = fs_first_only([''out''] \<mapsto> Dir, ext0 \<mapsto> Dir, ext0 @ [''circt-opt''] \<mapsto> File [1, 2, 3] 493),
      calls = [Exists ext0, Makedirs ext0,
               Isfile (binary_path root0 ''circt-opt''), Copy (binary_path root0 ''circt-opt'') ext0,
               Isfile (binary_path root0 ''firtool'')]\<rparr>"
  by (simp add: run_defs fixture_defs)

lemma run_only_a:
  "build_extension_for [''a'', ''b''] root0 ext0 fs_only_a =
     \<lparr>outcome = Raised AssertionError,
      files = fs_only_a([''out''] \<mapsto> Dir, ext0 \<mapsto> Dir, ext0 @ [''a''] \<mapsto> File [7] 493),
      calls = [Exists ext0, Makedirs ext0,
               Isfile (binary_path root0 ''a''), Copy (binary_path root0 ''a'') ext0,
               Isfile (binary_path root0 ''b'')]\<rparr>"
  by (simp add: run_defs fixture_defs)

text \<open>
  Claim C1 as stated fails. With names \<open>["a", "b"]\<close> and only \<open>a\<close> present, the run raises
  \<open>AssertionError\<close> at \<open>b\<close>, but it has already created the destination directory and copied
  \<open>a\<close> into it; the same happens with the script's own list when only \<open>circt-opt\<close> is
  present.
\<close>

theorem build_extension_fail_fast_counterexample:
  "\<not> isfile fs_only_a (binary_path root0 ''b'')
 \<and> outcome (build_extension_for [''a'', ''b''] root0 ext0 fs_only_a) = Raised AssertionError
 \<and> Copy (binary_path root0 ''a'') ext0
      \<in> set (calls (build_extension_for [''a'', ''b''] root0 ext0 fs_only_a))
 \<and> fs_only_a (ext0 @ [''a'']) = None
 \<and> files (build_extension_for [''a'', ''b''] root0 ext0 fs_only_a) (ext0 @ [''a''])
      = Some (File [7] 493)
 \<and> \<not> isfile fs_first_only (binary_path root0 ''firtool'')
 \<and> outcome (build_extension root0 ext0 fs_first_only) = Raised AssertionError
 \<and> fs_first_only (ext0 @ [''circt-opt'']) = None
 \<and> files (build_extension root0 ext0 fs_first_only) (ext0 @ [''circt-opt''])
      = Some (File [1, 2, 3] 493)"
  unfolding run_only_a run_first_only
  by (simp add: fixture_defs isfile_def lookup_def)

text \<open>
  Claim C1 as amended. The method checks and copies name by name, in list order, after
  creating the destination directory if it is absent. So when the file of some name is
  absent the run does not complete, and when it raises \<open>AssertionError\<close> it does so at the
  first absent name: the names before it have been checked and copied (they are in the
  destination with their sources' bytes), the failed check is the last call, and nothing is
  checked or copied for a later name. Where no platform call can raise, the outcome is that
  assertion failure. (The destination is taken absent or a directory.)
\<close>

theorem build_extension_fails_at_first_missing:
  assumes "\<not> isfile fs extdir" and "n \<in> set names"
    and "\<not> isfile fs (binary_path root_dir n)"
  shows "outcome (build_extension_for names root_dir extdir fs) \<noteq> Completed
       \<and> (outcome (build_extension_for names root_dir extdir fs) = Raised AssertionError \<longrightarrow>
            (\<exists>pre m post. names = pre @ m # post
               \<and> (\<forall>x\<in>set pre. isfile fs (binary_path root_dir x))
               \<and> \<not> isfile fs (binary_path root_dir m)
               \<and> calls (build_extension_for names root_dir extdir fs)
                   = calls (ensure_extdir fs extdir) @ loop_calls root_dir extdir pre
                       @ [Isfile (binary_path root_dir m)]
               \<and> (\<forall>x\<in>set pre. files (build_extension_for names root_dir extdir fs) (extdir @ [x])
                                   = fs (binary_path root_dir x))
               \<and> isdir (files (build_extension_for names root_dir extdir fs)) extdir))
       \<and> (platform_ok fs root_dir extdir names \<longrightarrow>
            outcome (build_extension_for names root_dir extdir fs) = Raised AssertionError)"
proof (intro conjI impI)
  show "outcome (build_extension_for names root_dir extdir fs) \<noteq> Completed"
  proof
    assume "outcome (build_extension_for names root_dir extdir fs) = Completed"
    from build_extension_for_completed[OF assms(1) this] assms(2)
    have "\<exists>bytes md. fs (binary_path root_dir n) = Some (File bytes md)" by blast
    with assms(3) show False by (simp add: isfile_binary)
  qed
next
  assume "outcome (build_extension_for names root_dir extdir fs) = Raised AssertionError"
  from build_extension_for_assertion[OF assms(1) this]
  show "\<exists>pre m post. names = pre @ m # post
               \<and> (\<forall>x\<in>set pre. isfile fs (binary_path root_dir x))
               \<and> \<not> isfile fs (binary_path root_dir m)
               \<and> calls (build_extension_for names root_dir extdir fs)
                   = calls (ensure_extdir fs extdir) @ loop_calls root_dir extdir pre
                       @ [Isfile (binary_path root_dir m)]
               \<and> (\<forall>x\<in>set pre. files (build_extension_for names root_dir extdir fs) (extdir @ [x])
                                   = fs (binary_path root_dir x))
               \<and> isdir (files (build_extension_for names root_dir extdir fs)) extdir" .
next
  assume "platform_ok fs root_dir extdir names"
  from build_extension_for_outcome[OF this] assms(2,3)
  show "outcome (build_extension_for names root_dir extdir fs) = Raised AssertionError"
    by auto
qed

theorem build_extension_fails_at_first_missing_witness:
  "outcome (build_extension_for [''a'', ''b''] root0 ext0 fs_only_a) = Raised AssertionError
 \<and> isdir (files (build_extension_for [''a'', ''b''] root0 ext0 fs_only_a)) ext0"
proof -
  have a: "\<not> isfile fs_only_a ext0" by (simp add: fixture_defs isfile_def lookup_def)
  have b: "''b'' \<in> set [''a'', ''b'']" by simp
  have c: "\<not> isfile fs_only_a (binary_path root0 ''b'')"
    by (simp add: fixture_defs isfile_def lookup_def)
  have p: "platform_ok fs_only_a root0 ext0 [''a'', ''b'']"
    by (simp add: ok_defs fixture_defs)
  note t = build_extension_fails_at_first_missing[OF a b c]
  from t p have o: "outcome (build_extension_for [''a'', ''b''] root0 ext0 fs_only_a)
      = Raised AssertionError" by blast
  with t have "isdir (files (build_extension_for [''a'', ''b''] root0 ext0 fs_only_a)) ext0"
    by blast
  with o show ?thesis by simp
qed











section \<open>The long description\<close>

lemma universal_newlines_id: "13 \<notin> set cps \<Longrightarrow> universal_newlines cps = cps"
  by (induction cps rule: universal_newlines.induct) auto

lemma unat_byte_13: "unat (b :: byte) = 13 \<longleftrightarrow> b = 0x0D"
proof
  assume "unat b = 13"
  then have "unat b = unat (0x0D :: byte)" by simp
  then show "b = 0x0D" by (rule word_unat_eq_iff[THEN iffD2])
next
  assume "b = 0x0D" then show "unat b = 13" by simp
qed

lemma utf8_decode_Cons:
  assumes "utf8_decode (b # bs) = Some cps"
  shows "\<exists>cp rest tl. cps = cp # tl \<and> utf8_decode rest = Some tl \<and> suffix rest bs
           \<and> (cp = 13 \<longrightarrow> b = 0x0D)"
proof -
  consider (one) "unat b < 0x80"
    | (two) "\<not> unat b < 0x80" "0xC2 \<le> unat b \<and> unat b \<le> 0xDF"
    | (three) "\<not> unat b < 0x80" "\<not> (0xC2 \<le> unat b \<and> unat b \<le> 0xDF)"
        "0xE0 \<le> unat b \<and> unat b \<le> 0xEF"
    | (four) "\<not> unat b < 0x80" "\<not> (0xC2 \<le> unat b \<and> unat b \<le> 0xDF)"
        "\<not> (0xE0 \<le> unat b \<and> unat b \<le> 0xEF)" "0xF0 \<le> unat b \<and> unat b \<le> 0xF4"
    | (none) "\<not> unat b < 0x80" "\<not> (0xC2 \<le> unat b \<and> unat b \<le> 0xDF)"
        "\<not> (0xE0 \<le> unat b \<and> unat b \<le> 0xEF)" "\<not> (0xF0 \<le> unat b \<and> unat b \<le> 0xF4)"
    by blast
  then show ?thesis
  proof cases
    case one
    with assms obtain tl where "utf8_decode bs = Some tl" "cps = unat b # tl"
      by (auto simp: Let_def)
    then show ?thesis by (auto simp: unat_byte_13)
  next
    case two
    with assms obtain c1 rest where bs: "bs = c1 # rest"
      by (cases bs) (auto simp: Let_def)
    with assms two obtain tl where "utf8_decode rest = Some tl"
      "cps = ((unat b - 0xC0) * 64 + (unat c1 - 0x80)) # tl"
      by (auto simp: Let_def split: if_splits)
    moreover have "suffix rest bs" unfolding bs by (simp add: suffix_Cons)
    moreover from two have "(unat b - 0xC0) * 64 + (unat c1 - 0x80) \<noteq> 13" by arith
    ultimately show ?thesis by blast
  next
    case three
    with assms obtain c1 c2 rest where bs: "bs = c1 # c2 # rest"
      by (cases bs; cases "tl bs") (auto simp: Let_def)
    let ?cp = "(unat b - 0xE0) * 4096 + (unat c1 - 0x80) * 64 + (unat c2 - 0x80)"
    from assms three bs obtain tl where "utf8_decode rest = Some tl" "cps = ?cp # tl"
      "0x800 \<le> ?cp"
      by (auto simp: Let_def split: if_splits)
    moreover have "suffix rest bs" unfolding bs by (simp add: suffix_Cons)
    ultimately show ?thesis by (intro exI[of _ ?cp] exI[of _ rest] exI[of _ tl]) simp
  next
    case four
    with assms obtain c1 c2 c3 rest where bs: "bs = c1 # c2 # c3 # rest"
      by (cases bs; cases "tl bs"; cases "tl (tl bs)") (auto simp: Let_def)
    let ?cp = "(unat b - 0xF0) * 262144 + (unat c1 - 0x80) * 4096
                       + (unat c2 - 0x80) * 64 + (unat c3 - 0x80)"
    from assms four bs obtain tl where "utf8_decode rest = Some tl" "cps = ?cp # tl"
      "0x10000 \<le> ?cp"
      by (auto simp: Let_def split: if_splits)
    moreover have "suffix rest bs" unfolding bs by (simp add: suffix_Cons)
    ultimately show ?thesis by (intro exI[of _ ?cp] exI[of _ rest] exI[of _ tl]) simp
  next
    case none
    with assms show ?thesis by (simp add: Let_def)
  qed
qed

text \<open>Only the byte \<open>0x0D\<close> decodes to a carriage return.\<close>

lemma utf8_decode_no_cr:
  "utf8_decode bytes = Some cps \<Longrightarrow> 0x0D \<notin> set bytes \<Longrightarrow> 13 \<notin> set cps"
proof (induction bytes arbitrary: cps rule: length_induct)
  case (1 bytes)
  show ?case
  proof (cases bytes)
    case Nil
    with "1.prems" show ?thesis by simp
  next
    case (Cons b bs)
    from utf8_decode_Cons[OF "1.prems"(1)[unfolded Cons]]
    obtain cp rest tl where c: "cps = cp # tl" and r: "utf8_decode rest = Some tl"
      and s: "suffix rest bs" and n: "cp = 13 \<longrightarrow> b = 0x0D"
      by blast
    from s have "length rest < length bytes" unfolding Cons
      using suffix_length_le by fastforce
    moreover from s "1.prems"(2) have "0x0D \<notin> set rest" unfolding Cons
      using set_mono_suffix by fastforce
    ultimately have "13 \<notin> set tl" using "1.IH" r by blast
    moreover from n "1.prems"(2) have "cp \<noteq> 13" unfolding Cons by auto
    ultimately show ?thesis unfolding c by simp
  qed
qed

lemma long_description_unfold:
  "fs (root_dir @ [''README.md'']) = Some (File bytes md) \<Longrightarrow>
     long_description preferred root_dir fs
       = (case preferred bytes of None \<Rightarrow> Inl UnicodeDecodeError
          | Some cps \<Rightarrow> Inr (universal_newlines cps))"
  by (simp add: long_description_def read_text_def)

text \<open>
  Claim C8 as stated fails, twice over. The file is decoded with the platform's preferred
  encoding, not with UTF-8: under an ISO-8859-1 locale the two bytes \<open>C3 A9\<close>, which are one
  code point \<open>E9\<close> in UTF-8, are read as two. And text mode translates line endings: even
  when the encoding is UTF-8 the bytes \<open>61 0D 0A\<close> are read as \<open>a\<close>, line feed, although
  their UTF-8 decoding keeps the carriage return.
\<close>

theorem long_description_utf8_counterexample:
  "long_description latin1_decode root0 fs_accent = Inr [0xC3, 0xA9]
 \<and> fs_accent (root0 @ [''README.md'']) = Some (File [0xC3, 0xA9] 420)
 \<and> utf8_decode [0xC3, 0xA9] = Some [0xE9]
 \<and> long_description utf8_decode root0 fs_crlf = Inr [0x61, 0x0A]
 \<and> fs_crlf (root0 @ [''README.md'']) = Some (File [0x61, 0x0D, 0x0A] 420)
 \<and> utf8_decode [0x61, 0x0D, 0x0A] = Some [0x61, 0x0D, 0x0A]"
  by (simp add: long_description_def read_text_def lookup_def latin1_decode_def
        continuation_def fs_accent_def fs_crlf_def root0_def)

text \<open>
  Claim C8 as amended. \<open>long_description\<close> is the text-mode read of the \<open>README.md\<close> next to
  the script: the whole file, decoded with the platform's preferred encoding, with \<open>\r\n\<close>
  and \<open>\r\<close> turned into \<open>\n\<close>; a file that does not decode raises. Where that encoding is
  UTF-8 and the file holds no carriage return, the result is the UTF-8 decoding of the
  file's entire contents.
\<close>

theorem long_description_text_mode:
  assumes "fs (root_dir @ [''README.md'']) = Some (File bytes md)"
  shows "long_description preferred root_dir fs
           = (case preferred bytes of None \<Rightarrow> Inl UnicodeDecodeError
              | Some cps \<Rightarrow> Inr (universal_newlines cps))
       \<and> (0x0D \<notin> set bytes \<longrightarrow>
            long_description utf8_decode root_dir fs
              = (case utf8_decode bytes of None \<Rightarrow> Inl UnicodeDecodeError
                 | Some cps \<Rightarrow> Inr cps))"
proof
  show "long_description preferred root_dir fs
           = (case preferred bytes of None \<Rightarrow> Inl UnicodeDecodeError
              | Some cps \<Rightarrow> Inr (universal_newlines cps))"
    using assms by (rule long_description_unfold)
  show "0x0D \<notin> set bytes \<longrightarrow>
            long_description utf8_decode root_dir fs
              = (case utf8_decode bytes of None \<Rightarrow> Inl UnicodeDecodeError
                 | Some cps \<Rightarrow> Inr cps)"
  proof
    assume n: "0x0D \<notin> set bytes"
    show "long_description utf8_decode root_dir fs
              = (case utf8_decode bytes of None \<Rightarrow> Inl UnicodeDecodeError
                 | Some cps \<Rightarrow> Inr cps)"
    proof (cases "utf8_decode bytes")
      case None
      with assms show ?thesis by (simp add: long_description_unfold)
    next
      case (Some cps)
      from utf8_decode_no_cr[OF Some n] have "universal_newlines cps = cps"
        by (rule universal_newlines_id)
      with assms Some show ?thesis by (simp add: long_description_unfold)
    qed
  qed
qed

theorem long_description_text_mode_witness:
  "long_description utf8_decode root0 fs_plain = Inr [0x68, 0x69, 0x0A]
 \<and> long_description latin1_decode root0 fs_plain = Inr [0x68, 0x69, 0x0A]"
proof -
  have f: "fs_plain (root0 @ [''README.md'']) = Some (File [0x68, 0x69, 0x0A] 420)"
    by (simp add: fs_plain_def)
  have n: "(0x0D :: byte) \<notin> set [0x68, 0x69, 0x0A]" by simp
  from long_description_text_mode[of fs_plain root0 "[0x68, 0x69, 0x0A]" 420 utf8_decode] f n
  have a: "long_description utf8_decode root0 fs_plain = Inr [0x68, 0x69, 0x0A]"
    by simp
  from long_description_text_mode[of fs_plain root0 "[0x68, 0x69, 0x0A]" 420 latin1_decode] f
  have b: "long_description latin1_decode root0 fs_plain = Inr [0x68, 0x69, 0x0A]"
    by (simp add: latin1_decode_def)
  from a b show ?thesis by simp
qed

end
